theory Spec2Isabelle
  imports Main "HOL-Library.Word"
begin

unbundle bit_operations_syntax

section \<open>Data model\<close>

text \<open>
  Image drawing routines of the Xlib graphics driver
  (\<^verbatim>\<open>src/drivers/Xlib/Fl_Xlib_Graphics_Driver_image.cxx\<close>).

  Source pixels are 8-bit unsigned samples reached through a \<^verbatim>\<open>const uchar *\<close>.
  A converter receives only that pointer, a pixel count and a stride; it has no
  notion of a buffer length.  Memory is therefore a byte at every address, and a
  pointer is an address.  C \<^verbatim>\<open>int\<close> values are modelled by \<^typ>\<open>int\<close>.  Signed overflow is
  undefined in the source: the size of the working buffer, the one product of two
  image dimensions, is checked against the range of \<^verbatim>\<open>int\<close> where it is computed;
  every other quantity is assumed to stay inside that range.
\<close>

type_synonym uchar = "8 word"
type_synonym memory = "int \<Rightarrow> uchar"

text \<open>
  Build configuration (\<^verbatim>\<open>config.h\<close>): whether the palette code is compiled in,
  whether 16-bit and 64-bit unsigned types exist, and the byte sex of the machine.
\<close>

record config =
  USE_COLORMAP :: bool
  has_U16 :: bool
  has_U64 :: bool
  WORDS_BIGENDIAN :: bool

text \<open>
  What the display reports (\<^verbatim>\<open>fl_xpixel\<close> fills the mask and shift variables of
  \<^verbatim>\<open>Fl_XColor.H\<close>; the pixmap format is the entry of \<^verbatim>\<open>XListPixmapFormats\<close> whose
  depth is the depth of the visual).
\<close>

record display =
  fl_redmask :: uchar
  fl_greenmask :: uchar
  fl_bluemask :: uchar
  fl_redshift :: int
  fl_greenshift :: int
  fl_blueshift :: int
  fl_extrashift :: int
  visual_depth :: int
  visual_red_mask :: nat
  pfv_bits_per_pixel :: int
  pfv_scanline_pad :: int
  ImageByteOrder :: int

text \<open>The direction alternator and the saved error-diffusion values.\<close>

record dither =
  dir :: int
  ri :: int
  gi :: int
  bi :: int

text \<open>
  A converted row, as the element type the converter stores through:
  bytes, 16-bit, 32-bit or 64-bit words, listed in increasing address order.
\<close>

datatype row_data =
    Row8 "8 word list"
  | Row16 "16 word list"
  | Row32 "32 word list"
  | Row64 "64 word list"

section \<open>Pixel converters\<close>

text \<open>
  \<^verbatim>\<open>for (; w--; from += d, to += td) { body }\<close>: the body reads at \<open>from\<close>, updates
  the running state and stores one output element.  The outputs are listed in
  the order the loop produces them.  The pixel count is a \<^typ>\<open>nat\<close>: the only
  caller passes a positive width.
\<close>

fun pixel_loop :: "(int \<Rightarrow> 's \<Rightarrow> 'o \<times> 's) \<Rightarrow> nat \<Rightarrow> int \<Rightarrow> int \<Rightarrow> 's \<Rightarrow> 'o list \<times> 's" where
  "pixel_loop body 0 from d s = ([], s)"
| "pixel_loop body (Suc w) from d s =
     (case body from s of (out, s') \<Rightarrow>
        (case pixel_loop body w (from + d) d s' of (outs, s'') \<Rightarrow> (out # outs, s'')))"

text \<open>
  The common head of the error-diffusion converters.  With \<open>dir\<close> set the row is
  walked from its last pixel to its first and the outputs are stored from the
  last element backwards, so in address order they appear reversed.  The result is
  the row in address order, the new \<open>dir\<close> and the final running state.
\<close>

definition serpentine ::
  "(int \<Rightarrow> 's \<Rightarrow> 'o \<times> 's) \<Rightarrow> int \<Rightarrow> int \<Rightarrow> nat \<Rightarrow> int \<Rightarrow> 's \<Rightarrow> 'o list \<times> int \<times> 's" where
  "serpentine body d0 from w delta s =
     (if d0 \<noteq> 0
      then (case pixel_loop body w (from + (int w - 1) * delta) (- delta) s of
              (outs, s') \<Rightarrow> (rev outs, 0, s'))
      else (case pixel_loop body w from delta s of
              (outs, s') \<Rightarrow> (outs, 1, s')))"

text \<open>
  \<^verbatim>\<open>OUTASSIGN\<close>: with a 16-bit type the value is stored as one \<^verbatim>\<open>U16\<close>; without,
  as two bytes, high byte first.
\<close>

definition OUTASSIGN :: "config \<Rightarrow> int list \<Rightarrow> row_data" where
  "OUTASSIGN cf vs =
     (if has_U16 cf then Row16 (map word_of_int vs)
      else Row8 (concat (map (\<lambda>tt. [word_of_int (drop_bit 8 tt), word_of_int tt]) vs)))"

subsection \<open>16 bit TrueColor converters with error diffusion\<close>

definition color16_pixel ::
  "display \<Rightarrow> memory \<Rightarrow> int \<Rightarrow> int \<times> int \<times> int \<Rightarrow> int \<times> (int \<times> int \<times> int)" where
  "color16_pixel dp m from = (\<lambda>(r0, g0, b0).
     let r1 = (r0 AND NOT (uint (fl_redmask dp))) + uint (m from);
         r = (if r1 > 255 then 255 else r1);
         g1 = (g0 AND NOT (uint (fl_greenmask dp))) + uint (m (from + 1));
         g = (if g1 > 255 then 255 else g1);
         b1 = (b0 AND NOT (uint (fl_bluemask dp))) + uint (m (from + 2));
         b = (if b1 > 255 then 255 else b1)
     in (drop_bit (nat (fl_extrashift dp))
           (push_bit (nat (fl_redshift dp)) (r AND uint (fl_redmask dp)) +
            push_bit (nat (fl_greenshift dp)) (g AND uint (fl_greenmask dp)) +
            push_bit (nat (fl_blueshift dp)) (b AND uint (fl_bluemask dp))),
         (r, g, b)))"

definition color16_converter ::
  "config \<Rightarrow> display \<Rightarrow> memory \<Rightarrow> int \<Rightarrow> nat \<Rightarrow> int \<Rightarrow> dither \<Rightarrow> row_data \<times> dither" where
  "color16_converter cf dp m from w delta st =
     (case serpentine (color16_pixel dp m) (dir st) from w delta (ri st, gi st, bi st) of
        (outs, d', (r, g, b)) \<Rightarrow>
          (OUTASSIGN cf outs, \<lparr>dir = d', ri = r, gi = g, bi = b\<rparr>))"

definition mono16_pixel :: "display \<Rightarrow> memory \<Rightarrow> int \<Rightarrow> int \<Rightarrow> int \<times> int" where
  "mono16_pixel dp m from r0 =
     (let mask = fl_redmask dp AND fl_greenmask dp AND fl_bluemask dp;
          r1 = (r0 AND NOT (uint mask)) + uint (m from);
          r = (if r1 > 255 then 255 else r1);
          mm = uint (word_of_int (r AND uint mask) :: uchar)
      in (drop_bit (nat (fl_extrashift dp))
            (push_bit (nat (fl_redshift dp)) mm +
             push_bit (nat (fl_greenshift dp)) mm +
             push_bit (nat (fl_blueshift dp)) mm),
          r))"

definition mono16_converter ::
  "config \<Rightarrow> display \<Rightarrow> memory \<Rightarrow> int \<Rightarrow> nat \<Rightarrow> int \<Rightarrow> dither \<Rightarrow> row_data \<times> dither" where
  "mono16_converter cf dp m from w delta st =
     (case serpentine (mono16_pixel dp m) (dir st) from w delta (ri st) of
        (outs, d', r) \<Rightarrow> (OUTASSIGN cf outs, st\<lparr>dir := d', ri := r\<rparr>))"

text \<open>The special case for the 5r6g5b layout used by XFree86.\<close>

definition c565_pixel :: "memory \<Rightarrow> int \<Rightarrow> int \<times> int \<times> int \<Rightarrow> int \<times> (int \<times> int \<times> int)" where
  "c565_pixel m from = (\<lambda>(r0, g0, b0).
     let r1 = (r0 AND 7) + uint (m from);
         r = (if r1 > 255 then 255 else r1);
         g1 = (g0 AND 3) + uint (m (from + 1));
         g = (if g1 > 255 then 255 else g1);
         b1 = (b0 AND 7) + uint (m (from + 2));
         b = (if b1 > 255 then 255 else b1)
     in (push_bit 8 (r AND 0xf8) + push_bit 3 (g AND 0xfc) + drop_bit 3 b, (r, g, b)))"

definition c565_converter ::
  "config \<Rightarrow> memory \<Rightarrow> int \<Rightarrow> nat \<Rightarrow> int \<Rightarrow> dither \<Rightarrow> row_data \<times> dither" where
  "c565_converter cf m from w delta st =
     (case serpentine (c565_pixel m) (dir st) from w delta (ri st, gi st, bi st) of
        (outs, d', (r, g, b)) \<Rightarrow>
          (OUTASSIGN cf outs, \<lparr>dir = d', ri = r, gi = g, bi = b\<rparr>))"

definition m565_pixel :: "memory \<Rightarrow> int \<Rightarrow> int \<Rightarrow> int \<times> int" where
  "m565_pixel m from r0 =
     (let r1 = (r0 AND 7) + uint (m from);
          r = (if r1 > 255 then 255 else r1)
      in (drop_bit 3 r * 0x841, r))"

definition m565_converter ::
  "config \<Rightarrow> memory \<Rightarrow> int \<Rightarrow> nat \<Rightarrow> int \<Rightarrow> dither \<Rightarrow> row_data \<times> dither" where
  "m565_converter cf m from w delta st =
     (case serpentine (m565_pixel m) (dir st) from w delta (ri st) of
        (outs, d', r) \<Rightarrow> (OUTASSIGN cf outs, st\<lparr>dir := d', ri := r\<rparr>))"

subsection \<open>8-bit converter with error diffusion\<close>

text \<open>
  An entry of the colormap table \<^verbatim>\<open>fl_xmap\<close> (\<^verbatim>\<open>struct Fl_XColor\<close>): the colour
  actually allocated, whether it has been allocated, and the X pixel value.
\<close>

record Fl_XColor =
  xc_r :: uchar
  xc_g :: uchar
  xc_b :: uchar
  xc_mapped :: uchar
  xc_pixel :: nat

type_synonym xmap_table = "nat \<Rightarrow> Fl_XColor"

text \<open>
  The colour cube and the colour allocation service of \<^verbatim>\<open>fl_color.cxx\<close> and
  \<^verbatim>\<open>FL/Enumerations.H\<close>, which are consulted and not computed here:
  the cube dimensions, the index of a cube cell, and the two forms of
  \<^verbatim>\<open>fl_xpixel\<close>, each of which fills an entry of \<^verbatim>\<open>fl_xmap\<close>.
\<close>

record palette =
  FL_NUM_RED :: int
  FL_NUM_GREEN :: int
  FL_NUM_BLUE :: int
  fl_color_cube :: "int \<Rightarrow> int \<Rightarrow> int \<Rightarrow> nat"
  fl_xpixel_rgb :: "xmap_table \<Rightarrow> int \<Rightarrow> int \<Rightarrow> int \<Rightarrow> xmap_table"
  fl_xpixel_index :: "xmap_table \<Rightarrow> nat \<Rightarrow> xmap_table"

text \<open>Division of C integers truncates towards zero.\<close>

definition c_div :: "int \<Rightarrow> int \<Rightarrow> int" where
  "c_div a b = sgn a * sgn b * (\<bar>a\<bar> div \<bar>b\<bar>)"

definition clamp8 :: "int \<Rightarrow> int" where
  "clamp8 r = (if r < 0 then 0 else if r > 255 then 255 else r)"

definition xmap_resolve ::
  "display \<Rightarrow> palette \<Rightarrow> xmap_table \<Rightarrow> int \<Rightarrow> int \<Rightarrow> int \<Rightarrow> nat \<times> xmap_table" where
  "xmap_resolve dp pal xm r g b =
     (let i = fl_color_cube pal (c_div (r * FL_NUM_RED pal) 256)
                (c_div (g * FL_NUM_GREEN pal) 256) (c_div (b * FL_NUM_BLUE pal) 256)
      in (i, if xc_mapped (xm i) = 0
             then (if fl_redmask dp = 0 then fl_xpixel_rgb pal xm r g b
                   else fl_xpixel_index pal xm i)
             else xm))"

definition color8_pixel ::
  "display \<Rightarrow> palette \<Rightarrow> memory \<Rightarrow> int \<Rightarrow> (int \<times> int \<times> int) \<times> xmap_table \<Rightarrow>
     uchar \<times> ((int \<times> int \<times> int) \<times> xmap_table)" where
  "color8_pixel dp pal m from = (\<lambda>((r0, g0, b0), xm).
     let r = clamp8 (r0 + uint (m from));
         g = clamp8 (g0 + uint (m (from + 1)));
         b = clamp8 (b0 + uint (m (from + 2)))
     in (case xmap_resolve dp pal xm r g b of (i, xm') \<Rightarrow>
           (word_of_nat (xc_pixel (xm' i)),
            ((r - uint (xc_r (xm' i)), g - uint (xc_g (xm' i)), b - uint (xc_b (xm' i))), xm'))))"

definition color8_converter ::
  "display \<Rightarrow> palette \<Rightarrow> memory \<Rightarrow> int \<Rightarrow> nat \<Rightarrow> int \<Rightarrow> dither \<times> xmap_table \<Rightarrow>
     row_data \<times> (dither \<times> xmap_table)" where
  "color8_converter dp pal m from w delta = (\<lambda>(st, xm).
     case serpentine (color8_pixel dp pal m) (dir st) from w delta ((ri st, gi st, bi st), xm) of
       (outs, d', ((r, g, b), xm')) \<Rightarrow>
         (Row8 outs, (\<lparr>dir = d', ri = r, gi = g, bi = b\<rparr>, xm')))"

definition mono8_pixel ::
  "display \<Rightarrow> palette \<Rightarrow> memory \<Rightarrow> int \<Rightarrow> (int \<times> int \<times> int) \<times> xmap_table \<Rightarrow>
     uchar \<times> ((int \<times> int \<times> int) \<times> xmap_table)" where
  "mono8_pixel dp pal m from = (\<lambda>((r0, g0, b0), xm).
     let r = clamp8 (r0 + uint (m from));
         g = clamp8 (g0 + uint (m from));
         b = clamp8 (b0 + uint (m from))
     in (case xmap_resolve dp pal xm r g b of (i, xm') \<Rightarrow>
           (word_of_nat (xc_pixel (xm' i)),
            ((r - uint (xc_r (xm' i)), g - uint (xc_g (xm' i)), b - uint (xc_b (xm' i))), xm'))))"

definition mono8_converter ::
  "display \<Rightarrow> palette \<Rightarrow> memory \<Rightarrow> int \<Rightarrow> nat \<Rightarrow> int \<Rightarrow> dither \<times> xmap_table \<Rightarrow>
     row_data \<times> (dither \<times> xmap_table)" where
  "mono8_converter dp pal m from w delta = (\<lambda>(st, xm).
     case serpentine (mono8_pixel dp pal m) (dir st) from w delta ((ri st, gi st, bi st), xm) of
       (outs, d', ((r, g, b), xm')) \<Rightarrow>
         (Row8 outs, (\<lparr>dir = d', ri = r, gi = g, bi = b\<rparr>, xm')))"

subsection \<open>24bit TrueColor converters\<close>

text \<open>
  Each pixel stores three bytes; \<open>from\<close> advances by \<open>delta\<close> in all
  (\<^verbatim>\<open>rgb_converter\<close> steps it three times and then adds \<open>delta - 3\<close>).
\<close>

definition rgb_converter :: "memory \<Rightarrow> int \<Rightarrow> nat \<Rightarrow> int \<Rightarrow> row_data" where
  "rgb_converter m from w delta =
     Row8 (concat (fst (pixel_loop
       (\<lambda>p (u::unit). ([m p, m (p + 1), m (p + 2)], u)) w from (3 + (delta - 3)) ())))"

definition bgr_converter :: "memory \<Rightarrow> int \<Rightarrow> nat \<Rightarrow> int \<Rightarrow> row_data" where
  "bgr_converter m from w delta =
     Row8 (concat (fst (pixel_loop
       (\<lambda>p (u::unit). ([m (p + 2), m (p + 1), m p], u)) w from delta ())))"

definition rrr_converter :: "memory \<Rightarrow> int \<Rightarrow> nat \<Rightarrow> int \<Rightarrow> row_data" where
  "rrr_converter m from w delta =
     Row8 (concat (fst (pixel_loop
       (\<lambda>p (u::unit). ([m p, m p, m p], u)) w from delta ())))"

subsection \<open>32bit TrueColor converters on a 32 or 64-bit machine\<close>

text \<open>
  \<^verbatim>\<open>INNARDS32(f)\<close>.  The expression \<open>f\<close> is evaluated at the current \<open>from\<close>;
  its C value (of type \<^verbatim>\<open>int\<close> or \<^verbatim>\<open>unsigned\<close>) is given as an integer and
  converted to the store type, which keeps it modulo the width of that type.
  With \<^verbatim>\<open>U64\<close> two pixels are packed into one 64-bit store, ordered by the
  byte sex so that they lie in pixel order in memory; an odd last pixel is
  stored with an empty other half.
\<close>

fun INNARDS32_pairs :: "bool \<Rightarrow> (int \<Rightarrow> int) \<Rightarrow> nat \<Rightarrow> int \<Rightarrow> int \<Rightarrow> 64 word list \<times> int" where
  "INNARDS32_pairs be f 0 from delta = ([], from)"
| "INNARDS32_pairs be f (Suc w1) from delta =
     (let i = (word_of_int (f from) :: 64 word);
          from2 = from + delta;
          v = (if be then push_bit 32 i OR word_of_int (f from2)
               else push_bit 32 (word_of_int (f from2)) OR i)
      in (case INNARDS32_pairs be f w1 (from2 + delta) delta of
            (vs, fin) \<Rightarrow> (v # vs, fin)))"

definition INNARDS32 :: "config \<Rightarrow> (int \<Rightarrow> int) \<Rightarrow> int \<Rightarrow> nat \<Rightarrow> int \<Rightarrow> row_data" where
  "INNARDS32 cf f from w delta =
     (if has_U64 cf
      then (case INNARDS32_pairs (WORDS_BIGENDIAN cf) f (w div 2) from delta of
              (vs, fin) \<Rightarrow>
                Row64 (vs @ (if odd w
                             then [if WORDS_BIGENDIAN cf
                                   then push_bit 32 (word_of_int (f fin))
                                   else word_of_int (f fin)]
                             else [])))
      else Row32 (fst (pixel_loop (\<lambda>p (u::unit). (word_of_int (f p), u)) w from delta ())))"

text \<open>The value of a C \<^verbatim>\<open>int\<close> expression that may leave the range: kept to 32 bits, signed.\<close>

definition as_int32 :: "int \<Rightarrow> int" where
  "as_int32 v = signed_take_bit 31 v"

definition as_unsigned32 :: "int \<Rightarrow> int" where
  "as_unsigned32 v = take_bit 32 v"

definition rgbx_value :: "memory \<Rightarrow> int \<Rightarrow> int" where
  "rgbx_value m from = as_unsigned32
     (push_bit 24 (uint (m from)) + push_bit 16 (uint (m (from + 1))) + push_bit 8 (uint (m (from + 2))))"

definition xbgr_value :: "memory \<Rightarrow> int \<Rightarrow> int" where
  "xbgr_value m from =
     uint (m from) + push_bit 8 (uint (m (from + 1))) + push_bit 16 (uint (m (from + 2)))"

definition xrgb_value :: "memory \<Rightarrow> int \<Rightarrow> int" where
  "xrgb_value m from =
     push_bit 16 (uint (m from)) + push_bit 8 (uint (m (from + 1))) + uint (m (from + 2))"

definition argb_premul_value :: "memory \<Rightarrow> int \<Rightarrow> int" where
  "argb_premul_value m from = as_unsigned32
     (push_bit 24 (uint (m (from + 3))) +
      push_bit 16 (c_div (uint (m from) * uint (m (from + 3))) 255) +
      push_bit 8 (c_div (uint (m (from + 1)) * uint (m (from + 3))) 255) +
      c_div (uint (m (from + 2)) * uint (m (from + 3))) 255)"

definition bgrx_value :: "memory \<Rightarrow> int \<Rightarrow> int" where
  "bgrx_value m from = as_unsigned32
     (push_bit 8 (uint (m from)) + push_bit 16 (uint (m (from + 1))) + push_bit 24 (uint (m (from + 2))))"

definition rrrx_value :: "memory \<Rightarrow> int \<Rightarrow> int" where
  "rrrx_value m from = as_unsigned32 (uint (m from) * 0x1010100)"

definition xrrr_value :: "memory \<Rightarrow> int \<Rightarrow> int" where
  "xrrr_value m from = as_unsigned32 (uint (m from) * 0x10101)"

definition color32_value :: "display \<Rightarrow> memory \<Rightarrow> int \<Rightarrow> int" where
  "color32_value dp m from = as_int32
     (push_bit (nat (fl_redshift dp)) (uint (m from)) +
      push_bit (nat (fl_greenshift dp)) (uint (m (from + 1))) +
      push_bit (nat (fl_blueshift dp)) (uint (m (from + 2))))"

definition mono32_value :: "display \<Rightarrow> memory \<Rightarrow> int \<Rightarrow> int" where
  "mono32_value dp m from = as_int32
     (push_bit (nat (fl_redshift dp)) (uint (m from)) +
      push_bit (nat (fl_greenshift dp)) (uint (m from)) +
      push_bit (nat (fl_blueshift dp)) (uint (m from)))"

definition rgbx_converter :: "config \<Rightarrow> memory \<Rightarrow> int \<Rightarrow> nat \<Rightarrow> int \<Rightarrow> row_data" where
  "rgbx_converter cf m = INNARDS32 cf (rgbx_value m)"

definition xbgr_converter :: "config \<Rightarrow> memory \<Rightarrow> int \<Rightarrow> nat \<Rightarrow> int \<Rightarrow> row_data" where
  "xbgr_converter cf m = INNARDS32 cf (xbgr_value m)"

definition xrgb_converter :: "config \<Rightarrow> memory \<Rightarrow> int \<Rightarrow> nat \<Rightarrow> int \<Rightarrow> row_data" where
  "xrgb_converter cf m = INNARDS32 cf (xrgb_value m)"

definition argb_premul_converter :: "config \<Rightarrow> memory \<Rightarrow> int \<Rightarrow> nat \<Rightarrow> int \<Rightarrow> row_data" where
  "argb_premul_converter cf m = INNARDS32 cf (argb_premul_value m)"

definition bgrx_converter :: "config \<Rightarrow> memory \<Rightarrow> int \<Rightarrow> nat \<Rightarrow> int \<Rightarrow> row_data" where
  "bgrx_converter cf m = INNARDS32 cf (bgrx_value m)"

definition rrrx_converter :: "config \<Rightarrow> memory \<Rightarrow> int \<Rightarrow> nat \<Rightarrow> int \<Rightarrow> row_data" where
  "rrrx_converter cf m = INNARDS32 cf (rrrx_value m)"

definition xrrr_converter :: "config \<Rightarrow> memory \<Rightarrow> int \<Rightarrow> nat \<Rightarrow> int \<Rightarrow> row_data" where
  "xrrr_converter cf m = INNARDS32 cf (xrrr_value m)"

definition color32_converter :: "config \<Rightarrow> display \<Rightarrow> memory \<Rightarrow> int \<Rightarrow> nat \<Rightarrow> int \<Rightarrow> row_data" where
  "color32_converter cf dp m = INNARDS32 cf (color32_value dp m)"

definition mono32_converter :: "config \<Rightarrow> display \<Rightarrow> memory \<Rightarrow> int \<Rightarrow> nat \<Rightarrow> int \<Rightarrow> row_data" where
  "mono32_converter cf dp m = INNARDS32 cf (mono32_value dp m)"

section \<open>The shared state of the file\<close>

text \<open>The converters, as the values the two function pointers can hold.\<close>

datatype converter_id =
    Color8 | Mono8
  | Color16 | Mono16 | C565 | M565
  | Rgb | Bgr | Rrr
  | Rgbx | Xbgr | Xrgb | Argb_premul | Bgrx | Rrrx | Xrrr | Color32 | Mono32

text \<open>
  Ways in which a call does not return to its caller: \<^verbatim>\<open>Fl::fatal\<close> (which ends
  the process), a call through a null function pointer, a failed allocation, and an
  \<^verbatim>\<open>int\<close> product outside the range of \<^verbatim>\<open>int\<close>, after which the behaviour is undefined
  (in practice the buffer size wraps, too small a buffer or none is allocated, and the
  rows are converted into storage that is not there).
\<close>

datatype failure =
    Fatal_scanline_pad int
  | Fatal_colormap int
  | Fatal_24bit
  | Fatal_bits_per_pixel int
  | Null_call
  | Bad_alloc
  | Int_overflow

text \<open>A graphics context: one handed in by the caller, or the 32-bit one made here.\<close>

datatype gc = Gc nat | Gc32

text \<open>Where \<^verbatim>\<open>xi.data\<close> points: nowhere yet, into the caller's pixels, or at the working buffer.\<close>

datatype image_data = No_data | Source_at int | Work_buffer

text \<open>
  One \<^verbatim>\<open>XPutImage\<close> request (source offset 0, 0): the context, the rows of the
  working buffer that it transfers, the destination and the size.
\<close>

record put_image =
  put_gc :: gc
  put_rows :: "row_data list"
  put_dest_x :: int
  put_dest_y :: int
  put_width :: int
  put_height :: int

text \<open>
  The file-level and function-level statics: the \<^verbatim>\<open>XImage\<close> template \<open>xi\<close>
  (fields prefixed \<open>xi_\<close>), the scanline geometry, the two converter pointers, the
  dither state, the colormap table, whether the 32-bit context has been created, the
  size of the working buffer, and the requests sent to the X server so far.
\<close>

record globals =
  xi_format :: int
  xi_byte_order :: int
  xi_depth :: int
  xi_bits_per_pixel :: int
  xi_width :: int
  xi_height :: int
  xi_data :: image_data
  xi_bytes_per_line :: int
  bytes_per_pixel :: int
  scanline_add :: int
  scanline_mask :: int
  converter :: "converter_id option"
  mono_converter :: "converter_id option"
  dith :: dither
  fl_xmap :: xmap_table
  gc32 :: bool
  buffer_size :: int
  puts :: "put_image list"

definition ZPixmap :: int where
  "ZPixmap = 2"

definition sizeof_STORETYPE :: "config \<Rightarrow> int" where
  "sizeof_STORETYPE cf = (if has_U64 cf then 8 else 4)"

definition WORDS_BIGENDIAN_int :: "config \<Rightarrow> int" where
  "WORDS_BIGENDIAN_int cf = (if WORDS_BIGENDIAN cf then 1 else 0)"

section \<open>Converter selection\<close>

text \<open>
  The three cases of the \<^verbatim>\<open>switch (bytes_per_pixel)\<close>, each on the shifts \<open>rs\<close>,
  \<open>gs\<close>, \<open>bs\<close> as they are when its tests are made.
\<close>

definition visual_case_2 ::
  "config \<Rightarrow> display \<Rightarrow> int \<Rightarrow> int \<Rightarrow> int \<Rightarrow> globals \<Rightarrow> failure + globals" where
  "visual_case_2 cf dp rs gs bs g =
     (let g' = g\<lparr>xi_byte_order := (if has_U16 cf then WORDS_BIGENDIAN_int cf else 1)\<rparr> in
      if rs = 11 \<and> gs = 6 \<and> bs = 0 \<and> fl_extrashift dp = 3
      then Inr (g'\<lparr>converter := Some C565, mono_converter := Some M565\<rparr>)
      else Inr (g'\<lparr>converter := Some Color16, mono_converter := Some Mono16\<rparr>))"

definition visual_case_3 :: "int \<Rightarrow> int \<Rightarrow> int \<Rightarrow> globals \<Rightarrow> failure + globals" where
  "visual_case_3 rs gs bs g =
     (if rs = 0 \<and> gs = 8 \<and> bs = 16
      then Inr (g\<lparr>converter := Some Rgb, mono_converter := Some Rrr\<rparr>)
      else if rs = 16 \<and> gs = 8 \<and> bs = 0
      then Inr (g\<lparr>converter := Some Bgr, mono_converter := Some Rrr\<rparr>)
      else Inl Fatal_24bit)"

definition visual_case_4 :: "config \<Rightarrow> int \<Rightarrow> int \<Rightarrow> int \<Rightarrow> globals \<Rightarrow> failure + globals" where
  "visual_case_4 cf rs gs bs g =
     (if rs = 0 \<and> gs = 8 \<and> bs = 16
      then Inr (g\<lparr>converter := Some Xbgr, mono_converter := Some Xrrr\<rparr>)
      else if rs = 24 \<and> gs = 16 \<and> bs = 8
      then Inr (g\<lparr>converter := Some Rgbx, mono_converter := Some Rrrx\<rparr>)
      else if rs = 8 \<and> gs = 16 \<and> bs = 24
      then Inr (g\<lparr>converter := Some Bgrx, mono_converter := Some Rrrx\<rparr>)
      else if rs = 16 \<and> gs = 8 \<and> bs = 0
      then Inr (g\<lparr>converter := Some Xrgb, mono_converter := Some Xrrr\<rparr>)
      else Inr (g\<lparr>xi_byte_order := WORDS_BIGENDIAN_int cf,
                  converter := Some Color32, mono_converter := Some Mono32\<rparr>))"

definition select_truecolor ::
  "config \<Rightarrow> display \<Rightarrow> globals \<Rightarrow> failure + globals" where
  "select_truecolor cf dp g =
     (let rs = fl_redshift dp; gs = fl_greenshift dp; bs = fl_blueshift dp in
      if bytes_per_pixel g = 2 then visual_case_2 cf dp rs gs bs g
      else if bytes_per_pixel g = 3 then
        (if xi_byte_order g \<noteq> 0 then visual_case_3 (16 - rs) (16 - gs) (16 - bs) g
         else visual_case_3 rs gs bs g)
      else if bytes_per_pixel g = 4 then
        (if (xi_byte_order g \<noteq> 0) \<noteq> WORDS_BIGENDIAN cf
         then visual_case_4 cf (24 - rs) (24 - gs) (24 - bs) g
         else visual_case_4 cf rs gs bs g)
      else Inl (Fatal_bits_per_pixel (xi_bits_per_pixel g)))"

definition figure_out_visual :: "config \<Rightarrow> display \<Rightarrow> globals \<Rightarrow> failure + globals" where
  "figure_out_visual cf dp g0 =
     (let g1 = g0\<lparr>xi_format := ZPixmap,
                  xi_byte_order := ImageByteOrder dp,
                  xi_depth := visual_depth dp,
                  xi_bits_per_pixel := pfv_bits_per_pixel dp\<rparr>;
          g2 = g1\<lparr>bytes_per_pixel :=
                    (if xi_bits_per_pixel g1 AND 7 \<noteq> 0 then 0
                     else c_div (xi_bits_per_pixel g1) 8)\<rparr>;
          n0 = c_div (pfv_scanline_pad dp) 8
      in if pfv_scanline_pad dp AND 7 \<noteq> 0 \<or> n0 AND (n0 - 1) \<noteq> 0
         then Inl (Fatal_scanline_pad (pfv_scanline_pad dp))
         else
           (let n = (if n0 < sizeof_STORETYPE cf then sizeof_STORETYPE cf else n0);
                g3 = g2\<lparr>scanline_add := n - 1, scanline_mask := - n\<rparr>
            in if USE_COLORMAP cf \<and> bytes_per_pixel g3 = 1
               then Inr (g3\<lparr>converter := Some Color8, mono_converter := Some Mono8\<rparr>)
               else if USE_COLORMAP cf \<and> visual_red_mask dp = 0
               then Inl (Fatal_colormap (xi_bits_per_pixel g3))
               else select_truecolor cf dp g3))"

section \<open>The streaming engine\<close>

definition MAXBUFFER :: int where
  "MAXBUFFER = 0x40000"

text \<open>The largest value of a C \<^verbatim>\<open>int\<close> (32 bits); the smallest is \<open>- INT_MAX - 1\<close>.\<close>

definition INT_MAX :: int where
  "INT_MAX = 0x7fffffff"

definition fits_int :: "int \<Rightarrow> bool" where
  "fits_int v \<longleftrightarrow> - INT_MAX - 1 \<le> v \<and> v \<le> INT_MAX"

text \<open>A call through one of the converter pointers.\<close>

definition run_conv ::
  "config \<Rightarrow> display \<Rightarrow> palette \<Rightarrow> converter_id \<Rightarrow> memory \<Rightarrow> int \<Rightarrow> nat \<Rightarrow> int \<Rightarrow>
     globals \<Rightarrow> row_data \<times> globals" where
  "run_conv cf dp pal c m from w delta g =
     (case c of
        Color8 \<Rightarrow> (case color8_converter dp pal m from w delta (dith g, fl_xmap g) of
                     (row, (st, xm)) \<Rightarrow> (row, g\<lparr>dith := st, fl_xmap := xm\<rparr>))
      | Mono8 \<Rightarrow> (case mono8_converter dp pal m from w delta (dith g, fl_xmap g) of
                     (row, (st, xm)) \<Rightarrow> (row, g\<lparr>dith := st, fl_xmap := xm\<rparr>))
      | Color16 \<Rightarrow> (case color16_converter cf dp m from w delta (dith g) of
                     (row, st) \<Rightarrow> (row, g\<lparr>dith := st\<rparr>))
      | Mono16 \<Rightarrow> (case mono16_converter cf dp m from w delta (dith g) of
                     (row, st) \<Rightarrow> (row, g\<lparr>dith := st\<rparr>))
      | C565 \<Rightarrow> (case c565_converter cf m from w delta (dith g) of
                     (row, st) \<Rightarrow> (row, g\<lparr>dith := st\<rparr>))
      | M565 \<Rightarrow> (case m565_converter cf m from w delta (dith g) of
                     (row, st) \<Rightarrow> (row, g\<lparr>dith := st\<rparr>))
      | Rgb \<Rightarrow> (rgb_converter m from w delta, g)
      | Bgr \<Rightarrow> (bgr_converter m from w delta, g)
      | Rrr \<Rightarrow> (rrr_converter m from w delta, g)
      | Rgbx \<Rightarrow> (rgbx_converter cf m from w delta, g)
      | Xbgr \<Rightarrow> (xbgr_converter cf m from w delta, g)
      | Xrgb \<Rightarrow> (xrgb_converter cf m from w delta, g)
      | Argb_premul \<Rightarrow> (argb_premul_converter cf m from w delta, g)
      | Bgrx \<Rightarrow> (bgrx_converter cf m from w delta, g)
      | Rrrx \<Rightarrow> (rrrx_converter cf m from w delta, g)
      | Xrrr \<Rightarrow> (xrrr_converter cf m from w delta, g)
      | Color32 \<Rightarrow> (color32_converter cf dp m from w delta, g)
      | Mono32 \<Rightarrow> (mono32_converter cf dp m from w delta, g))"

text \<open>
  The pull callback \<^verbatim>\<open>cb(userdata, x, y, w, linebuf)\<close> fills the line buffer: it
  maps the buffer's contents before the call to its contents after.  Address 0 of
  that memory is the start of the line buffer.
\<close>

type_synonym Fl_Draw_Image_Cb = "int \<Rightarrow> int \<Rightarrow> int \<Rightarrow> memory \<Rightarrow> memory"

text \<open>Where the next row comes from: the caller's pixels at an address, or the line buffer.\<close>

datatype pixel_source = Buffer int | Line_buffer memory

text \<open>What stays fixed while the rows of one call are converted and sent.\<close>

record job =
  job_cf :: config
  job_dp :: display
  job_pal :: palette
  job_mem :: memory
  job_cb :: "Fl_Draw_Image_Cb option"
  job_conv :: "converter_id option"
  job_gc :: gc
  job_X :: int
  job_Y :: int
  job_dx :: int
  job_dy :: int
  job_w :: int
  job_h :: int
  job_delta :: int
  job_linedelta :: int
  job_blocking :: int

text \<open>The body of the inner loop, for row \<open>j\<close>, in either mode.\<close>

definition convert_row ::
  "job \<Rightarrow> int \<Rightarrow> pixel_source \<Rightarrow> globals \<Rightarrow> failure + (row_data \<times> pixel_source \<times> globals)" where
  "convert_row jb j src g =
     (case src of
        Buffer p \<Rightarrow>
          (case job_conv jb of
             None \<Rightarrow> Inl Null_call
           | Some c \<Rightarrow>
               (case run_conv (job_cf jb) (job_dp jb) (job_pal jb) c (job_mem jb) p
                       (nat (job_w jb)) (job_delta jb) g of
                  (row, g') \<Rightarrow> Inr (row, Buffer (p + job_linedelta jb), g')))
      | Line_buffer lb \<Rightarrow>
          (case job_cb jb of
             None \<Rightarrow> Inl Null_call
           | Some cb \<Rightarrow>
               (let lb' = cb (job_dx jb) (job_dy jb + j) (job_w jb) lb in
                case job_conv jb of
                  None \<Rightarrow> Inl Null_call
                | Some c \<Rightarrow>
                    (case run_conv (job_cf jb) (job_dp jb) (job_pal jb) c lb' 0
                            (nat (job_w jb)) (job_delta jb) g of
                       (row, g') \<Rightarrow> Inr (row, Line_buffer lb', g')))))"

text \<open>
  \<^verbatim>\<open>for (k = 0; j<h && k<blocking; k++, j++)\<close>: the rows converted so far are
  collected in buffer order.
\<close>

function convert_rows ::
  "job \<Rightarrow> int \<Rightarrow> int \<Rightarrow> pixel_source \<Rightarrow> row_data list \<Rightarrow> globals \<Rightarrow>
     failure + (int \<times> int \<times> pixel_source \<times> row_data list \<times> globals)" where
  "convert_rows jb k j src rows g =
     (if j < job_h jb \<and> k < job_blocking jb
      then (case convert_row jb j src g of
              Inl e \<Rightarrow> Inl e
            | Inr (row, src', g') \<Rightarrow> convert_rows jb (k + 1) (j + 1) src' (rows @ [row]) g')
      else Inr (k, j, src, rows, g))"
  by pat_completeness auto
termination
  by (relation "measure (\<lambda>(jb, k, j, src, rows, g). nat (job_h jb - j))") auto

declare convert_rows.simps [simp del]

definition XPutImage :: "job \<Rightarrow> row_data list \<Rightarrow> int \<Rightarrow> int \<Rightarrow> globals \<Rightarrow> globals" where
  "XPutImage jb rows y k g =
     g\<lparr>puts := puts g @
          [\<lparr>put_gc = job_gc jb, put_rows = rows,
            put_dest_x = job_X jb + job_dx jb, put_dest_y = y,
            put_width = job_w jb, put_height = k\<rparr>]\<rparr>"

text \<open>
  \<^verbatim>\<open>for (int j=0; j<h; ) { ... XPutImage(..., Y+dy+j-k, w, k); }\<close>.
  The loop has no bound of its own, so a call that never leaves it has no result.
\<close>

partial_function (option) put_chunks ::
  "job \<Rightarrow> int \<Rightarrow> pixel_source \<Rightarrow> globals \<Rightarrow> (failure + globals) option" where
  "put_chunks jb j src g =
     (if j < job_h jb
      then (case convert_rows jb 0 j src [] g of
              Inl e \<Rightarrow> Some (Inl e)
            | Inr (k, j', src', rows, g') \<Rightarrow>
                put_chunks jb j' src'
                  (XPutImage jb rows (job_Y jb + job_dy jb + j' - k) k g'))
      else Some (Inr g))"

declare put_chunks.simps [code]

text \<open>
  The general path of \<^verbatim>\<open>innards\<close>: size the working buffer, then convert and send
  the rows in blocks.  \<open>fl_clip_box\<close> has already given the clipped size \<open>w\<close>, \<open>h\<close> and
  the offsets \<open>dx\<close>, \<open>dy\<close>.  \<^verbatim>\<open>int size = linesize*h\<close> is an \<^verbatim>\<open>int\<close> product: outside the
  range of \<^verbatim>\<open>int\<close> it is undefined.  The line buffer of the callback mode is fresh
  storage; its initial contents are taken to be zero.
\<close>

definition general_path ::
  "config \<Rightarrow> display \<Rightarrow> palette \<Rightarrow> memory \<Rightarrow> int option \<Rightarrow> int \<Rightarrow> int \<Rightarrow> int \<Rightarrow> int \<Rightarrow> int \<Rightarrow>
     Fl_Draw_Image_Cb option \<Rightarrow> converter_id option \<Rightarrow> gc \<Rightarrow> int \<Rightarrow> int \<Rightarrow> int \<Rightarrow> int \<Rightarrow>
     globals \<Rightarrow> (failure + globals) option" where
  "general_path cf dp pal m buf X Y W delta linedelta cb conv gc1 dx dy w h g =
     (let linesize = ((w * bytes_per_pixel g + scanline_add g) AND scanline_mask g)
                       div sizeof_STORETYPE cf;
          size0 = linesize * h
      in if \<not> fits_int size0 then Some (Inl Int_overflow)
         else
           (let blocking = (if size0 > MAXBUFFER then c_div MAXBUFFER linesize else h);
                size1 = (if size0 > MAXBUFFER then MAXBUFFER else size0);
                g1 = (if size1 > buffer_size g then g\<lparr>buffer_size := size1\<rparr> else g);
                g2 = g1\<lparr>xi_data := Work_buffer,
                        xi_bytes_per_line := linesize * sizeof_STORETYPE cf\<rparr>;
                jb = \<lparr>job_cf = cf, job_dp = dp, job_pal = pal, job_mem = m, job_cb = cb,
                      job_conv = conv, job_gc = gc1, job_X = X, job_Y = Y, job_dx = dx,
                      job_dy = dy, job_w = w, job_h = h, job_delta = delta,
                      job_linedelta = linedelta, job_blocking = blocking\<rparr>
            in case buf of
                 Some b \<Rightarrow> put_chunks jb 0 (Buffer (b + delta * dx + linedelta * dy)) g2
               | None \<Rightarrow>
                   if W * delta + (sizeof_STORETYPE cf - 1) < 0 then Some (Inl Bad_alloc)
                   else put_chunks jb 0 (Line_buffer (\<lambda>a. 0)) g2))"

text \<open>\<^verbatim>\<open>if (!bytes_per_pixel) figure_out_visual();\<close>\<close>

definition ensure_visual :: "config \<Rightarrow> display \<Rightarrow> globals \<Rightarrow> failure + globals" where
  "ensure_visual cf dp g = (if bytes_per_pixel g = 0 then figure_out_visual cf dp g else Inr g)"

text \<open>
  The converter that \<^verbatim>\<open>innards\<close> calls: the colour converter, replaced by the mono
  converter when the mono flag is set, and by the premultiplied-alpha converter when
  the alpha flag is set.
\<close>

definition chosen_converter :: "globals \<Rightarrow> int \<Rightarrow> bool \<Rightarrow> converter_id option" where
  "chosen_converter g mono_flag alpha =
     (if alpha then Some Argb_premul
      else if mono_flag \<noteq> 0 then mono_converter g else converter g)"

text \<open>The fields set for alpha output, and their restoration from \<open>oldbpp\<close> at the end.\<close>

definition alpha_override :: "display \<Rightarrow> globals \<Rightarrow> globals" where
  "alpha_override dp g =
     g\<lparr>bytes_per_pixel := 4, xi_depth := 32, xi_bits_per_pixel := 32,
       gc32 := (gc32 g \<or> visual_depth dp \<noteq> 32)\<rparr>"

definition alpha_restore :: "display \<Rightarrow> int \<Rightarrow> globals \<Rightarrow> globals" where
  "alpha_restore dp oldbpp g =
     g\<lparr>bytes_per_pixel := oldbpp, xi_depth := visual_depth dp, xi_bits_per_pixel := oldbpp * 8\<rparr>"

text \<open>
  \<^verbatim>\<open>innards\<close>.  \<open>fl_clip_box\<close> is the clipping service of the driver: it maps the
  requested rectangle to the bounding box \<open>(x, y, w, h)\<close> of its visible part.
  \<open>buf\<close> is the address of the caller's pixels, or \<open>None\<close> for a null pointer.
\<close>

definition innards ::
  "config \<Rightarrow> display \<Rightarrow> palette \<Rightarrow> (int \<Rightarrow> int \<Rightarrow> int \<Rightarrow> int \<Rightarrow> int \<times> int \<times> int \<times> int) \<Rightarrow> memory \<Rightarrow>
     int option \<Rightarrow> int \<Rightarrow> int \<Rightarrow> int \<Rightarrow> int \<Rightarrow> int \<Rightarrow> int \<Rightarrow> int \<Rightarrow>
     Fl_Draw_Image_Cb option \<Rightarrow> bool \<Rightarrow> gc \<Rightarrow> globals \<Rightarrow> (failure + globals) option" where
  "innards cf dp pal fl_clip_box m buf X Y W H delta linedelta0 mono_flag cb alpha gc0 g0 =
     (let linedelta = (if linedelta0 = 0 then W * \<bar>delta\<bar> else linedelta0) in
      case fl_clip_box X Y W H of
        (cx, cy, w, h) \<Rightarrow>
          if w \<le> 0 \<or> h \<le> 0 then Some (Inr g0)
          else
            (let dx = cx - X; dy = cy - Y in
             case ensure_visual cf dp g0 of
               Inl e \<Rightarrow> Some (Inl e)
             | Inr g1 \<Rightarrow>
                 (let oldbpp = bytes_per_pixel g1;
                      g2 = g1\<lparr>xi_width := w, xi_height := h\<rparr>;
                      conv = chosen_converter g2 mono_flag alpha;
                      g3 = (if alpha then alpha_override dp g2 else g2);
                      gc1 = (if alpha \<and> visual_depth dp \<noteq> 32 then Gc32 else gc0);
                      res =
                        (case buf of
                           Some b \<Rightarrow>
                             if conv = Some Rgb \<and> delta = 3 \<and> (linedelta AND scanline_add g3) = 0
                             then Some (Inr (g3\<lparr>xi_data := Source_at (b + delta * dx + linedelta * dy),
                                                 xi_bytes_per_line := linedelta\<rparr>))
                             else general_path cf dp pal m buf X Y W delta linedelta cb conv gc1
                                    dx dy w h g3
                         | None \<Rightarrow>
                             general_path cf dp pal m buf X Y W delta linedelta cb conv gc1
                               dx dy w h g3)
                  in case res of
                       None \<Rightarrow> None
                     | Some (Inl e) \<Rightarrow> Some (Inl e)
                     | Some (Inr g4) \<Rightarrow>
                         Some (Inr (if alpha then alpha_restore dp oldbpp g4 else g4)))))"

section \<open>The public entry points\<close>

text \<open>
  The first three statements of both \<^verbatim>\<open>draw_image\<close> overloads: the alpha flag, the
  channel count without it, and the mono flag.  \<open>FL_IMAGE_WITH_ALPHA\<close> is a
  constant of \<^verbatim>\<open>FL/Enumerations.H\<close>.
\<close>

definition decode_depth :: "int \<Rightarrow> int \<Rightarrow> bool \<times> int \<times> int" where
  "decode_depth FL_IMAGE_WITH_ALPHA d =
     (let alpha = ((\<bar>d\<bar> AND FL_IMAGE_WITH_ALPHA) \<noteq> 0);
          d' = (if alpha then d XOR FL_IMAGE_WITH_ALPHA else d);
          mono_flag = (if d' > - 3 \<and> d' < 3 then 1 else 0)
      in (alpha, d', mono_flag))"

definition draw_image ::
  "config \<Rightarrow> display \<Rightarrow> palette \<Rightarrow> (int \<Rightarrow> int \<Rightarrow> int \<Rightarrow> int \<Rightarrow> int \<times> int \<times> int \<times> int) \<Rightarrow> memory \<Rightarrow>
     int \<Rightarrow> int option \<Rightarrow> int \<Rightarrow> int \<Rightarrow> int \<Rightarrow> int \<Rightarrow> int \<Rightarrow> int \<Rightarrow> gc \<Rightarrow> globals \<Rightarrow>
     (failure + globals) option" where
  "draw_image cf dp pal fl_clip_box m FL_IMAGE_WITH_ALPHA buf x y w h d l gc0 g =
     (case decode_depth FL_IMAGE_WITH_ALPHA d of
        (alpha, d', mono_flag) \<Rightarrow>
          innards cf dp pal fl_clip_box m buf x y w h d' l mono_flag None alpha gc0 g)"

definition draw_image_callback ::
  "config \<Rightarrow> display \<Rightarrow> palette \<Rightarrow> (int \<Rightarrow> int \<Rightarrow> int \<Rightarrow> int \<Rightarrow> int \<times> int \<times> int \<times> int) \<Rightarrow> memory \<Rightarrow>
     int \<Rightarrow> Fl_Draw_Image_Cb option \<Rightarrow> int \<Rightarrow> int \<Rightarrow> int \<Rightarrow> int \<Rightarrow> int \<Rightarrow> gc \<Rightarrow> globals \<Rightarrow>
     (failure + globals) option" where
  "draw_image_callback cf dp pal fl_clip_box m FL_IMAGE_WITH_ALPHA cb x y w h d gc0 g =
     (case decode_depth FL_IMAGE_WITH_ALPHA d of
        (alpha, d', mono_flag) \<Rightarrow>
          innards cf dp pal fl_clip_box m None x y w h d' 0 mono_flag cb alpha gc0 g)"

text \<open>The state before the first call: every static is zero.\<close>

definition initial_globals :: globals where
  "initial_globals =
     \<lparr>xi_format = 0, xi_byte_order = 0, xi_depth = 0, xi_bits_per_pixel = 0,
      xi_width = 0, xi_height = 0, xi_data = No_data, xi_bytes_per_line = 0,
      bytes_per_pixel = 0, scanline_add = 0, scanline_mask = 0,
      converter = None, mono_converter = None,
      dith = \<lparr>dir = 0, ri = 0, gi = 0, bi = 0\<rparr>,
      fl_xmap = (\<lambda>i. \<lparr>xc_r = 0, xc_g = 0, xc_b = 0, xc_mapped = 0, xc_pixel = 0\<rparr>),
      gc32 = False, buffer_size = 0, puts = []\<rparr>"

section \<open>Compositing without accelerated alpha\<close>

text \<open>What \<^verbatim>\<open>alpha_blend\<close> reads of an \<^verbatim>\<open>Fl_RGB_Image\<close>: the address of the pixel
  array, the width, the depth and the line size.\<close>

record Fl_RGB_Image =
  img_array :: int
  img_w :: int
  img_d :: int
  img_ld :: int

text \<open>
  \<^verbatim>\<open>(src * srca + dst * dsta) >> 8\<close>, computed in \<^verbatim>\<open>int\<close> and stored into a
  \<^verbatim>\<open>uchar\<close>.
\<close>

definition blend :: "uchar \<Rightarrow> uchar \<Rightarrow> uchar \<Rightarrow> uchar \<Rightarrow> uchar" where
  "blend src srca dstc dsta = word_of_int (drop_bit 8 (uint src * uint srca + uint dstc * uint dsta))"

text \<open>
  The source pixel at \<open>srcptr\<close> as red, green, blue, alpha and the number of bytes
  read: the grayscale+alpha loop uses the one intensity for all three channels.
\<close>

definition read_ga :: "memory \<Rightarrow> int \<Rightarrow> uchar \<times> uchar \<times> uchar \<times> uchar \<times> int" where
  "read_ga m srcptr = (m srcptr, m srcptr, m srcptr, m (srcptr + 1), 2)"

definition read_rgba :: "memory \<Rightarrow> int \<Rightarrow> uchar \<times> uchar \<times> uchar \<times> uchar \<times> int" where
  "read_rgba m srcptr = (m srcptr, m (srcptr + 1), m (srcptr + 2), m (srcptr + 3), 4)"

text \<open>
  \<^verbatim>\<open>for (int x = W; x > 0; x--) { ... }\<close>: the destination buffer is updated in
  place at index \<open>dstptr\<close>; the three old values are read before the first store.
\<close>

fun blend_pixels ::
  "(int \<Rightarrow> uchar \<times> uchar \<times> uchar \<times> uchar \<times> int) \<Rightarrow> nat \<Rightarrow> int \<Rightarrow> nat \<Rightarrow> uchar list \<Rightarrow>
     int \<times> nat \<times> uchar list" where
  "blend_pixels rd 0 srcptr dstptr dst = (srcptr, dstptr, dst)"
| "blend_pixels rd (Suc x) srcptr dstptr dst =
     (case rd srcptr of
        (srcr, srcg, srcb, srca, n) \<Rightarrow>
          (let dstr = dst ! dstptr;
               dstg = dst ! (dstptr + 1);
               dstb = dst ! (dstptr + 2);
               dsta = 255 - srca;
               dst1 = dst[dstptr := blend srcr srca dstr dsta];
               dst2 = dst1[dstptr + 1 := blend srcg srca dstg dsta];
               dst3 = dst2[dstptr + 2 := blend srcb srca dstb dsta]
           in blend_pixels rd x (srcptr + n) (dstptr + 3) dst3))"

text \<open>\<^verbatim>\<open>for (int y = H; y > 0; y--, srcptr+=srcskip)\<close> around the pixel loop.\<close>

fun blend_rows ::
  "(int \<Rightarrow> uchar \<times> uchar \<times> uchar \<times> uchar \<times> int) \<Rightarrow> nat \<Rightarrow> int \<Rightarrow> nat \<Rightarrow> int \<Rightarrow> nat \<Rightarrow>
     uchar list \<Rightarrow> uchar list" where
  "blend_rows rd W srcskip 0 srcptr dstptr dst = dst"
| "blend_rows rd W srcskip (Suc y) srcptr dstptr dst =
     (case blend_pixels rd W srcptr dstptr dst of
        (srcptr', dstptr', dst') \<Rightarrow>
          blend_rows rd W srcskip y (srcptr' + srcskip) dstptr' dst')"

text \<open>
  \<^verbatim>\<open>alpha_blend\<close>.  \<open>fl_read_image\<close> is the read-back service: the byte it puts at
  each index of the \<open>W * H * 3\<close> bytes of the destination rectangle.  The result is
  the buffer that is handed to \<^verbatim>\<open>fl_draw_image(dst, X, Y, W, H, 3, 0)\<close>.
\<close>

definition alpha_blend ::
  "memory \<Rightarrow> (int \<Rightarrow> int \<Rightarrow> int \<Rightarrow> int \<Rightarrow> nat \<Rightarrow> uchar) \<Rightarrow> Fl_RGB_Image \<Rightarrow>
     int \<Rightarrow> int \<Rightarrow> int \<Rightarrow> int \<Rightarrow> int \<Rightarrow> int \<Rightarrow> failure + uchar list" where
  "alpha_blend m fl_read_image img X Y W H cx cy =
     (let ld = (if img_ld img = 0 then img_w img * img_d img else img_ld img);
          srcptr = img_array img + cy * ld + cx * img_d img;
          srcskip = ld - img_d img * W
      in if W * H * 3 < 0 then Inl Bad_alloc
         else
           (let dst = map (fl_read_image X Y W H) [0..<nat (W * H * 3)]
            in Inr (if img_d img = 2
                    then blend_rows (read_ga m) (nat W) srcskip (nat H) srcptr 0 dst
                    else blend_rows (read_rgba m) (nat W) srcskip (nat H) srcptr 0 dst)))"

text \<open>
  The line size \<^verbatim>\<open>alpha_blend\<close> works with (\<^verbatim>\<open>if (ld == 0) ld = img->w() * img->d()\<close>)
  and the address \<^verbatim>\<open>img->array + row * ld + col * img->d()\<close> of the source pixel in a
  given row and column of the image.
\<close>

definition line_size :: "Fl_RGB_Image \<Rightarrow> int" where
  "line_size img = (if img_ld img = 0 then img_w img * img_d img else img_ld img)"

definition pixel_address :: "Fl_RGB_Image \<Rightarrow> int \<Rightarrow> int \<Rightarrow> int" where
  "pixel_address img row col = img_array img + row * line_size img + col * img_d img"

section \<open>Example configurations\<close>

text \<open>A little-endian 64-bit build with the palette code compiled in.\<close>

definition example_config :: config where
  "example_config =
     \<lparr>USE_COLORMAP = True, has_U16 = True, has_U64 = True, WORDS_BIGENDIAN = False\<rparr>"

text \<open>A 16-bit TrueColor display with the 5-6-5 layout.\<close>

definition display_565 :: display where
  "display_565 =
     \<lparr>fl_redmask = 0xf8, fl_greenmask = 0xfc, fl_bluemask = 0xf8,
      fl_redshift = 11, fl_greenshift = 6, fl_blueshift = 0, fl_extrashift = 3,
      visual_depth = 16, visual_red_mask = 0xf800,
      pfv_bits_per_pixel = 16, pfv_scanline_pad = 32, ImageByteOrder = 0\<rparr>"

text \<open>A 24-bit TrueColor display whose pixels are stored red first.\<close>

definition display_rgb24 :: display where
  "display_rgb24 =
     \<lparr>fl_redmask = 0xff, fl_greenmask = 0xff, fl_bluemask = 0xff,
      fl_redshift = 0, fl_greenshift = 8, fl_blueshift = 16, fl_extrashift = 0,
      visual_depth = 24, visual_red_mask = 0xff,
      pfv_bits_per_pixel = 24, pfv_scanline_pad = 32, ImageByteOrder = 0\<rparr>"

text \<open>
  A colour service that grants every cell of a 5 x 8 x 5 cube its nominal colour
  when the cell is first asked for.
\<close>

definition cube_color :: "nat \<Rightarrow> Fl_XColor" where
  "cube_color i =
     (let c = int i - 56; g = c mod 8; r = (c div 8) mod 5; b = c div 40
      in \<lparr>xc_r = word_of_int (r * 255 div 4), xc_g = word_of_int (g * 255 div 7),
          xc_b = word_of_int (b * 255 div 4), xc_mapped = 1, xc_pixel = i\<rparr>)"

definition example_palette :: palette where
  "example_palette =
     \<lparr>FL_NUM_RED = 5, FL_NUM_GREEN = 8, FL_NUM_BLUE = 5,
      fl_color_cube = (\<lambda>r g b. nat ((b * 5 + r) * 8 + g + 56)),
      fl_xpixel_rgb = (\<lambda>xm r g b.
         xm(nat ((c_div (b * 5) 256 * 5 + c_div (r * 5) 256) * 8 + c_div (g * 8) 256 + 56) :=
              cube_color (nat ((c_div (b * 5) 256 * 5 + c_div (r * 5) 256) * 8 + c_div (g * 8) 256 + 56)))),
      fl_xpixel_index = (\<lambda>xm i. xm(i := cube_color i))\<rparr>"

text \<open>No clip region: the requested rectangle is its own bounding box.\<close>

definition no_clip :: "int \<Rightarrow> int \<Rightarrow> int \<Rightarrow> int \<Rightarrow> int \<times> int \<times> int \<times> int" where
  "no_clip X Y W H = (X, Y, W, H)"

text \<open>A clip region that is one rectangle \<open>(cx, cy, cw, ch)\<close>.\<close>

definition clip_to :: "int \<times> int \<times> int \<times> int \<Rightarrow> int \<Rightarrow> int \<Rightarrow> int \<Rightarrow> int \<Rightarrow> int \<times> int \<times> int \<times> int" where
  "clip_to = (\<lambda>(cx, cy, cw, ch) X Y W H.
     (let x0 = max X cx; y0 = max Y cy;
          x1 = min (X + W) (cx + cw); y1 = min (Y + H) (cy + ch)
      in if x1 \<le> x0 \<or> y1 \<le> y0 then (X, Y, 0, 0) else (x0, y0, x1 - x0, y1 - y0)))"

section \<open>Reading converted rows\<close>

text \<open>
  A row of 32-bit pixels as the sequence of 32-bit words that lie in memory, in
  address order: a 64-bit store holds two of them, the one at the lower address in
  its high half on a big-endian machine and in its low half otherwise.
\<close>

definition split64 :: "bool \<Rightarrow> 64 word \<Rightarrow> 32 word list" where
  "split64 be v =
     (if be then [ucast (drop_bit 32 v), ucast v] else [ucast v, ucast (drop_bit 32 v)])"

fun words32 :: "config \<Rightarrow> row_data \<Rightarrow> 32 word list" where
  "words32 cf (Row32 ws) = ws"
| "words32 cf (Row64 vs) = concat (map (split64 (WORDS_BIGENDIAN cf)) vs)"
| "words32 cf (Row8 bs) = []"
| "words32 cf (Row16 hs) = []"

text \<open>
  The bytes that a store of an \<open>n\<close>-byte unsigned value leaves in memory, in address
  order: most significant byte first on a big-endian machine, least significant byte
  first otherwise.
\<close>

definition store_bytes :: "bool \<Rightarrow> nat \<Rightarrow> 'a::len word \<Rightarrow> uchar list" where
  "store_bytes be n v =
     (if be then map (\<lambda>k. ucast (drop_bit (8 * k) v)) (rev [0..<n])
      else map (\<lambda>k. ucast (drop_bit (8 * k) v)) [0..<n])"

text \<open>
  A converted row as the bytes in memory, in address order.  The converters store
  through \<^verbatim>\<open>uchar *\<close>, \<^verbatim>\<open>U16 *\<close>, \<^verbatim>\<open>U32 *\<close> or \<^verbatim>\<open>U64 *\<close>; the byte sex of the
  machine is the build's \<^verbatim>\<open>WORDS_BIGENDIAN\<close>.
\<close>

fun row_bytes :: "config \<Rightarrow> row_data \<Rightarrow> uchar list" where
  "row_bytes cf (Row8 bs) = bs"
| "row_bytes cf (Row16 hs) = concat (map (store_bytes (WORDS_BIGENDIAN cf) 2) hs)"
| "row_bytes cf (Row32 ws) = concat (map (store_bytes (WORDS_BIGENDIAN cf) 4) ws)"
| "row_bytes cf (Row64 vs) = concat (map (store_bytes (WORDS_BIGENDIAN cf) 8) vs)"

text \<open>The addresses of the pixels of a row: \<open>from\<close>, \<open>from + delta\<close>, ...\<close>

definition pixel_addresses :: "int \<Rightarrow> nat \<Rightarrow> int \<Rightarrow> int list" where
  "pixel_addresses from w delta = map (\<lambda>k. from + int k * delta) [0..<w]"

section \<open>Sequences of converter calls\<close>

text \<open>All three saved error-diffusion values lie between \<open>lo\<close> and \<open>hi\<close>.\<close>

definition acc_within :: "int \<Rightarrow> int \<Rightarrow> dither \<Rightarrow> bool" where
  "acc_within lo hi st \<longleftrightarrow>
     lo \<le> ri st \<and> ri st \<le> hi \<and> lo \<le> gi st \<and> gi st \<le> hi \<and> lo \<le> bi st \<and> bi st \<le> hi"

text \<open>
  Successive calls of one converter, each on its own row (memory, start address,
  pixel count, stride), with the shared state carried from call to call.
\<close>

fun convert_calls ::
  "config \<Rightarrow> display \<Rightarrow> palette \<Rightarrow> converter_id \<Rightarrow> (memory \<times> int \<times> nat \<times> int) list \<Rightarrow>
     globals \<Rightarrow> globals" where
  "convert_calls cf dp pal c [] g = g"
| "convert_calls cf dp pal c ((m, from, w, delta) # calls) g =
     convert_calls cf dp pal c calls (snd (run_conv cf dp pal c m from w delta g))"

text \<open>An 8-bit PseudoColor display: no colour masks, one byte per pixel.\<close>

definition display_pseudo8 :: display where
  "display_pseudo8 =
     \<lparr>fl_redmask = 0, fl_greenmask = 0, fl_bluemask = 0,
      fl_redshift = 0, fl_greenshift = 0, fl_blueshift = 0, fl_extrashift = 0,
      visual_depth = 8, visual_red_mask = 0,
      pfv_bits_per_pixel = 8, pfv_scanline_pad = 32, ImageByteOrder = 0\<rparr>"

text \<open>A triple of running error values lies between \<open>lo\<close> and \<open>hi\<close>.\<close>

definition in3 :: "int \<Rightarrow> int \<Rightarrow> int \<times> int \<times> int \<Rightarrow> bool" where
  "in3 lo hi = (\<lambda>(r, g, b). lo \<le> r \<and> r \<le> hi \<and> lo \<le> g \<and> g \<le> hi \<and> lo \<le> b \<and> b \<le> hi)"

section \<open>Reading the requests sent to the server\<close>

text \<open>
  The rows of the clipped image that a request transfers, as (first row, number of
  rows): the first row is the request's destination line relative to the top line
  \<open>y0\<close> of the clipped image.
\<close>

definition row_ranges :: "int \<Rightarrow> put_image list \<Rightarrow> (int \<times> int) list" where
  "row_ranges y0 ps = map (\<lambda>p. (put_dest_y p - y0, put_height p)) ps"

text \<open>
  The ranges follow one another without gap or overlap, none is empty, the first
  starts at row \<open>j\<close> and the last ends at row \<open>h\<close>: together they are the rows
  \<open>j, ..., h - 1\<close>, each once.
\<close>

fun tiles :: "int \<Rightarrow> int \<Rightarrow> (int \<times> int) list \<Rightarrow> bool" where
  "tiles j h [] \<longleftrightarrow> h \<le> j"
| "tiles j h ((s, k) # rs) \<longleftrightarrow> s = j \<and> 0 < k \<and> j + k \<le> h \<and> tiles (j + k) h rs"

text \<open>
  The rows that successive calls of one converter produce, each call on its own row
  (memory, start address, pixel count, stride), with the shared state carried from
  call to call.
\<close>

fun converted_rows ::
  "config \<Rightarrow> display \<Rightarrow> palette \<Rightarrow> converter_id \<Rightarrow> (memory \<times> int \<times> nat \<times> int) list \<Rightarrow>
     globals \<Rightarrow> row_data list" where
  "converted_rows cf dp pal c [] g = []"
| "converted_rows cf dp pal c ((m, from, w, delta) # calls) g =
     fst (run_conv cf dp pal c m from w delta g) #
       converted_rows cf dp pal c calls (snd (run_conv cf dp pal c m from w delta g))"

text \<open>
  The contents of the line buffer after each of \<open>n\<close> successive calls of the pull
  callback, asked for the lines \<open>y\<close>, \<open>y + 1\<close>, ... at column \<open>x\<close> and width \<open>w\<close>.
\<close>

fun callback_lines :: "Fl_Draw_Image_Cb \<Rightarrow> int \<Rightarrow> int \<Rightarrow> int \<Rightarrow> memory \<Rightarrow> nat \<Rightarrow> memory list" where
  "callback_lines cb x w y lb 0 = []"
| "callback_lines cb x w y lb (Suc n) =
     cb x y w lb # callback_lines cb x w (y + 1) (cb x y w lb) n"

text \<open>
  The rows \<open>0, ..., h - 1\<close> of the clipped image as converter calls, top to bottom.
  Row \<open>j\<close> of a buffer source starts at \<open>buf + delta * dx + linedelta * (dy + j)\<close>;
  row \<open>j\<close> of a callback source is the line buffer (at address 0) once the callback
  has been asked for line \<open>dy + j\<close>.
\<close>

definition image_rows ::
  "memory \<Rightarrow> int option \<Rightarrow> Fl_Draw_Image_Cb option \<Rightarrow> int \<Rightarrow> int \<Rightarrow> int \<Rightarrow> int \<Rightarrow> int \<Rightarrow> int \<Rightarrow>
     (memory \<times> int \<times> nat \<times> int) list" where
  "image_rows m buf cb dx dy w h delta linedelta =
     (case buf of
        Some b \<Rightarrow>
          map (\<lambda>j. (m, b + delta * dx + linedelta * (dy + int j), nat w, delta)) [0..<nat h]
      | None \<Rightarrow>
          (case cb of
             Some f \<Rightarrow> map (\<lambda>lb. (lb, 0, nat w, delta)) (callback_lines f dx w dy (\<lambda>a. 0) (nat h))
           | None \<Rightarrow> []))"

text \<open>
  The same for a job under way: the next \<open>n\<close> rows from row \<open>j\<close> on, when the source
  stands at \<open>src\<close>, and where the source stands after them.
\<close>

definition job_calls :: "job \<Rightarrow> int \<Rightarrow> pixel_source \<Rightarrow> nat \<Rightarrow> (memory \<times> int \<times> nat \<times> int) list" where
  "job_calls jb j src n =
     (case src of
        Buffer p \<Rightarrow>
          map (\<lambda>i. (job_mem jb, p + job_linedelta jb * int i, nat (job_w jb), job_delta jb)) [0..<n]
      | Line_buffer lb \<Rightarrow>
          (case job_cb jb of
             Some f \<Rightarrow>
               map (\<lambda>l. (l, 0, nat (job_w jb), job_delta jb))
                 (callback_lines f (job_dx jb) (job_w jb) (job_dy jb + j) lb n)
           | None \<Rightarrow> []))"

definition source_after :: "job \<Rightarrow> int \<Rightarrow> pixel_source \<Rightarrow> nat \<Rightarrow> pixel_source" where
  "source_after jb j src n =
     (case src of
        Buffer p \<Rightarrow> Buffer (p + job_linedelta jb * int n)
      | Line_buffer lb \<Rightarrow>
          (case job_cb jb of
             Some f \<Rightarrow>
               Line_buffer (last (lb # callback_lines f (job_dx jb) (job_w jb) (job_dy jb + j) lb n))
           | None \<Rightarrow> src))"

text \<open>The format descriptor fields that alpha mode overrides.\<close>

definition descriptor :: "globals \<Rightarrow> int \<times> int \<times> int" where
  "descriptor g = (bytes_per_pixel g, xi_depth g, xi_bits_per_pixel g)"

section \<open>Frame conditions of the engine\<close>

text \<open>A converter call changes nothing of the shared state but the dither state and the colormap table.\<close>

definition same_but_dither :: "globals \<Rightarrow> globals \<Rightarrow> bool" where
  "same_but_dither g g' \<longleftrightarrow> g'\<lparr>dith := dith g, fl_xmap := fl_xmap g\<rparr> = g"

text \<open>
  The rows of a call can be fetched and converted: the converter pointer is set, and
  in callback mode there is a callback.
\<close>

definition source_ok :: "job \<Rightarrow> pixel_source \<Rightarrow> bool" where
  "source_ok jb src \<longleftrightarrow>
     job_conv jb \<noteq> None \<and>
     (case src of Buffer p \<Rightarrow> True | Line_buffer lb \<Rightarrow> job_cb jb \<noteq> None)"

text \<open>The statics after converter selection on the two example TrueColor displays.\<close>

definition globals_565 :: globals where
  "globals_565 = initial_globals\<lparr>xi_format := ZPixmap, xi_byte_order := 0,
            xi_depth := 16, xi_bits_per_pixel := 16, bytes_per_pixel := 2,
            scanline_add := 7, scanline_mask := - 8,
            converter := Some C565, mono_converter := Some M565\<rparr>"

definition globals_rgb24 :: globals where
  "globals_rgb24 = initial_globals\<lparr>xi_format := ZPixmap, xi_byte_order := 0,
            xi_depth := 24, xi_bits_per_pixel := 24, bytes_per_pixel := 3,
            scanline_add := 7, scanline_mask := - 8,
            converter := Some Rgb, mono_converter := Some Rrr\<rparr>"

section \<open>The mono 5-6-5 converter on a uniform row\<close>

lemma m565_pixel_128:
  "m from = 128 \<Longrightarrow> r0 AND 7 = 0 \<Longrightarrow> m565_pixel m from r0 = (0x8410, 128)"
  by (simp add: m565_pixel_def)

lemma m565_loop_128:
  "\<forall>k<w. m (from + int k * d) = 128 \<Longrightarrow> r0 AND 7 = 0 \<Longrightarrow>
   pixel_loop (m565_pixel m) w from d r0 = (replicate w 0x8410, if w = 0 then r0 else 128)"
proof (induction w arbitrary: "from" r0)
  case 0
  then show ?case by simp
next
  case (Suc w)
  have h: "m from = 128"
    using Suc.prems(1)[rule_format, of 0] by simp
  have "\<forall>k<w. m (from + d + int k * d) = 128"
  proof (intro allI impI)
    fix k assume "k < w"
    then have "m (from + int (Suc k) * d) = 128"
      using Suc.prems(1) by blast
    then show "m (from + d + int k * d) = 128"
      by (simp add: algebra_simps)
  qed
  then have "pixel_loop (m565_pixel m) w (from + d) d 128 = (replicate w 0x8410, 128)"
    using Suc.IH[of "from + d" 128] by simp
  then show ?case
    using h Suc.prems(2) by (simp add: m565_pixel_128)
qed

lemma m565_converter_128:
  assumes "\<forall>k<w. m (from + int k) = 128" and "ri st AND 7 = 0" and "dir st = 0"
  shows "m565_converter cf m from w 1 st =
           (OUTASSIGN cf (replicate w 0x8410), st\<lparr>dir := 1, ri := (if w = 0 then ri st else 128)\<rparr>)"
  using assms m565_loop_128[of w m "from" 1 "ri st"]
  by (simp add: m565_converter_def serpentine_def)

lemma OUTASSIGN_8410:
  "OUTASSIGN cf (replicate n 0x8410) =
     (if has_U16 cf then Row16 (replicate n 0x8410)
      else Row8 (concat (replicate n [0x84, 0x10])))"
proof -
  have h: "(33808 :: 8 word) = 16"
    by simp
  show ?thesis
    apply (simp add: OUTASSIGN_def map_replicate_const)
    apply (simp only: h)
    apply simp
    done
qed

lemma figure_out_visual_565:
  assumes bpp: "pfv_bits_per_pixel dp = 16"
      and pad: "pfv_scanline_pad dp \<in> {8, 16, 32}"
      and layout: "fl_redshift dp = 11" "fl_greenshift dp = 6" "fl_blueshift dp = 0"
                  "fl_extrashift dp = 3"
      and tc: "USE_COLORMAP cf \<longrightarrow> visual_red_mask dp \<noteq> 0"
  shows "figure_out_visual cf dp g =
           Inr (g\<lparr>xi_format := ZPixmap,
                  xi_byte_order := (if has_U16 cf then WORDS_BIGENDIAN_int cf else 1),
                  xi_depth := visual_depth dp, xi_bits_per_pixel := 16,
                  bytes_per_pixel := 2,
                  scanline_add := sizeof_STORETYPE cf - 1,
                  scanline_mask := - sizeof_STORETYPE cf,
                  converter := Some C565, mono_converter := Some M565\<rparr>)"
proof -
  have a: "(16::int) AND 7 = 0" "c_div 16 8 = 2"
    by (simp_all add: c_div_def)
  consider "pfv_scanline_pad dp = 8" | "pfv_scanline_pad dp = 16" | "pfv_scanline_pad dp = 32"
    using pad by blast
  then have p: "pfv_scanline_pad dp AND 7 = 0"
     "c_div (pfv_scanline_pad dp) 8 AND (c_div (pfv_scanline_pad dp) 8 - 1) = 0"
     "(if c_div (pfv_scanline_pad dp) 8 < sizeof_STORETYPE cf then sizeof_STORETYPE cf
       else c_div (pfv_scanline_pad dp) 8) = sizeof_STORETYPE cf"
    by (cases; simp add: c_div_def sizeof_STORETYPE_def)+
  show ?thesis
    unfolding figure_out_visual_def Let_def
    using tc by (simp add: select_truecolor_def visual_case_2_def layout bpp a p)
qed

lemma general_path_single_m565:
  assumes src: "\<forall>k<10. m (buf + int k) = 128"
      and g: "bytes_per_pixel g = 2" "scanline_add g = sizeof_STORETYPE cf - 1"
             "scanline_mask g = - sizeof_STORETYPE cf"
             "ri (dith g) AND 7 = 0" "dir (dith g) = 0"
  shows "\<exists>g'. general_path cf dp pal m (Some buf) X Y W 1 linedelta cb (Some M565) gc1 0 0 10 1 g
                 = Some (Inr g')
           \<and> mono_converter g' = mono_converter g \<and> bytes_per_pixel g' = bytes_per_pixel g
           \<and> dith g' = (dith g)\<lparr>dir := 1, ri := 128\<rparr>
           \<and> puts g' = puts g @ [\<lparr>put_gc = gc1,
                 put_rows = [OUTASSIGN cf (replicate 10 0x8410)],
                 put_dest_x = X, put_dest_y = Y, put_width = 10, put_height = 1\<rparr>]"
proof -
  define g2 where "g2 = (if (if has_U64 cf then 3 else 5) > buffer_size g
        then g\<lparr>buffer_size := (if has_U64 cf then 3 else 5)\<rparr> else g)
       \<lparr>xi_data := Work_buffer,
        xi_bytes_per_line := (if has_U64 cf then 3 else 5) * sizeof_STORETYPE cf\<rparr>"
  define jb where "jb = \<lparr>job_cf = cf, job_dp = dp, job_pal = pal, job_mem = m, job_cb = cb,
                job_conv = Some M565, job_gc = gc1, job_X = X, job_Y = Y, job_dx = 0, job_dy = 0,
                job_w = 10, job_h = 1, job_delta = 1, job_linedelta = linedelta,
                job_blocking = 1\<rparr>"
  define st' where "st' = (dith g)\<lparr>dir := 1, ri := 128\<rparr>"
  have g2: "dith g2 = dith g" "puts g2 = puts g" "mono_converter g2 = mono_converter g"
      "bytes_per_pixel g2 = bytes_per_pixel g"
    by (simp_all add: g2_def)
  have jbs: "job_h jb = 1" "job_blocking jb = 1" "job_conv jb = Some M565" "job_w jb = 10"
     "job_delta jb = 1" "job_mem jb = m" "job_cf jb = cf" "job_linedelta jb = linedelta"
     "job_gc jb = gc1" "job_X jb = X" "job_Y jb = Y" "job_dx jb = 0" "job_dy jb = 0"
    by (simp_all add: jb_def)
  have row: "convert_row jb 0 (Buffer buf) g2 =
      Inr (OUTASSIGN cf (replicate 10 0x8410), Buffer (buf + linedelta), g2\<lparr>dith := st'\<rparr>)"
    using m565_converter_128[OF src, of "dith g" cf] g(4,5)
    by (simp add: convert_row_def run_conv_def jbs g2 st'_def)
  have rows: "convert_rows jb 0 0 (Buffer buf) [] g2 =
      Inr (1, 1, Buffer (buf + linedelta), [OUTASSIGN cf (replicate 10 0x8410)], g2\<lparr>dith := st'\<rparr>)"
    apply (subst convert_rows.simps)
    apply (simp add: jbs row)
    apply (subst convert_rows.simps)
    apply (simp add: jbs)
    done
  have chunks: "put_chunks jb 0 (Buffer buf) g2 =
      Some (Inr (XPutImage jb [OUTASSIGN cf (replicate 10 0x8410)] Y 1 (g2\<lparr>dith := st'\<rparr>)))"
    apply (subst put_chunks.simps)
    apply (simp add: jbs rows)
    apply (subst put_chunks.simps)
    apply (simp add: jbs)
    done
  have gp: "general_path cf dp pal m (Some buf) X Y W 1 linedelta cb (Some M565) gc1 0 0 10 1 g
      = put_chunks jb 0 (Buffer buf) g2"
    unfolding general_path_def Let_def
    by (cases "has_U64 cf") (simp_all add: g sizeof_STORETYPE_def MAXBUFFER_def INT_MAX_def fits_int_def jb_def g2_def)
  show ?thesis
    unfolding gp chunks
    by (simp add: XPutImage_def jbs g2 st'_def)
qed

text \<open>
  Claim C1.  On a 16-bit display with the 5-6-5 layout (red shift 11, green shift 6,
  blue shift 0, extra shift 3), drawing a 10 x 1 grayscale image whose ten source
  bytes are all 128, from the initial state (dither state zero), selects the mono
  5-6-5 converter and sends one row of exactly ten 16-bit values, each
  \<open>(128 >> 3) * 0x841 = 0x8410\<close> (stored as two bytes, high byte first, on a build
  without a 16-bit type).
\<close>

theorem draw_gray128_on_565:
  assumes bpp: "pfv_bits_per_pixel dp = 16"
      and pad: "pfv_scanline_pad dp \<in> {8, 16, 32}"
      and layout: "fl_redshift dp = 11" "fl_greenshift dp = 6" "fl_blueshift dp = 0"
                  "fl_extrashift dp = 3"
      and tc: "USE_COLORMAP cf \<longrightarrow> visual_red_mask dp \<noteq> 0"
      and src: "\<forall>k<10. m (buf + int k) = 128"
      and clip: "fl_clip_box x y 10 1 = (x, y, 10, 1)"
      and flag: "1 AND FL_IMAGE_WITH_ALPHA = 0"
  shows "\<exists>g'. draw_image cf dp pal fl_clip_box m FL_IMAGE_WITH_ALPHA (Some buf) x y 10 1 1 0 gc0
                 initial_globals = Some (Inr g')
     \<and> mono_converter g' = Some M565
     \<and> dith g' = \<lparr>dir = 1, ri = 128, gi = 0, bi = 0\<rparr>
     \<and> puts g' = [\<lparr>put_gc = gc0,
            put_rows = [if has_U16 cf then Row16 (replicate 10 (word_of_int (drop_bit 3 128 * 0x841)))
                        else Row8 (concat (replicate 10 [0x84, 0x10]))],
            put_dest_x = x, put_dest_y = y, put_width = 10, put_height = 1\<rparr>]"
proof -
  have ig: "bytes_per_pixel initial_globals = 0"
    by (simp add: initial_globals_def)
  note fov = figure_out_visual_565[OF bpp pad layout tc, of initial_globals]
  define g3 where "g3 = initial_globals\<lparr>xi_format := ZPixmap,
                  xi_byte_order := (if has_U16 cf then WORDS_BIGENDIAN_int cf else 1),
                  xi_depth := visual_depth dp, xi_bits_per_pixel := 16,
                  bytes_per_pixel := 2,
                  scanline_add := sizeof_STORETYPE cf - 1,
                  scanline_mask := - sizeof_STORETYPE cf,
                  converter := Some C565, mono_converter := Some M565,
                  xi_width := 10, xi_height := 1\<rparr>"
  have g3: "bytes_per_pixel g3 = 2" "scanline_add g3 = sizeof_STORETYPE cf - 1"
             "scanline_mask g3 = - sizeof_STORETYPE cf"
             "ri (dith g3) AND 7 = 0" "dir (dith g3) = 0" "puts g3 = []"
             "mono_converter g3 = Some M565"
             "dith g3 = \<lparr>dir = 0, ri = 0, gi = 0, bi = 0\<rparr>"
    by (simp_all add: g3_def initial_globals_def)
  obtain g' where g':
     "general_path cf dp pal m (Some buf) x y 10 1 10 None (Some M565) gc0 0 0 10 1 g3
        = Some (Inr g')"
     "mono_converter g' = mono_converter g3" "dith g' = (dith g3)\<lparr>dir := 1, ri := 128\<rparr>"
     "puts g' = puts g3 @ [\<lparr>put_gc = gc0,
                 put_rows = [OUTASSIGN cf (replicate 10 0x8410)],
                 put_dest_x = x, put_dest_y = y, put_width = 10, put_height = 1\<rparr>]"
    using general_path_single_m565[OF src g3(1-5), of dp pal x y 10 10 None gc0] by blast
  have "draw_image cf dp pal fl_clip_box m FL_IMAGE_WITH_ALPHA (Some buf) x y 10 1 1 0 gc0
          initial_globals = Some (Inr g')"
    unfolding draw_image_def decode_depth_def innards_def Let_def
    by (simp add: flag clip ig fov ensure_visual_def chosen_converter_def g'(1)[unfolded g3_def])
  then show ?thesis
    using g'(2-4) by (simp add: g3 OUTASSIGN_8410)
qed

theorem draw_gray128_on_565_witness:
  "\<exists>g'. draw_image example_config display_565 example_palette no_clip (\<lambda>a. 128) 0x40000000
           (Some 0) 0 0 10 1 1 0 (Gc 0) initial_globals = Some (Inr g')
     \<and> mono_converter g' = Some M565
     \<and> dith g' = \<lparr>dir = 1, ri = 128, gi = 0, bi = 0\<rparr>
     \<and> puts g' = [\<lparr>put_gc = Gc 0, put_rows = [Row16 (replicate 10 0x8410)],
            put_dest_x = 0, put_dest_y = 0, put_width = 10, put_height = 1\<rparr>]"
  using draw_gray128_on_565[of display_565 example_config "\<lambda>a. 128" 0 no_clip 0 0 "0x40000000"
          example_palette "Gc 0"]
  by (simp add: display_565_def example_config_def no_clip_def)

section \<open>The 32-bit converters and premultiplied alpha\<close>

lemma pixel_loop_pure:
  "pixel_loop (\<lambda>p (u::unit). (f p, u)) w from d () = (map f (pixel_addresses from w d), ())"
proof (induction w arbitrary: "from")
  case 0
  then show ?case by (simp add: pixel_addresses_def)
next
  case (Suc w)
  have "pixel_addresses from (Suc w) d = from # pixel_addresses (from + d) w d"
    by (simp add: pixel_addresses_def upt_conv_Cons map_Suc_upt[symmetric] algebra_simps del: upt_Suc)
  then show ?case using Suc.IH[of "from + d"] by simp
qed

lemma halves_of_pair:
  fixes a b :: int
  assumes "0 \<le> b" "b < 2 ^ 32"
  shows "ucast (drop_bit 32 (push_bit 32 (word_of_int a :: 64 word) OR word_of_int b)) = (word_of_int a :: 32 word)"
    and "ucast (push_bit 32 (word_of_int a :: 64 word) OR word_of_int b) = (word_of_int b :: 32 word)"
proof -
  have tb: "take_bit 32 b = b"
    using assms by (simp add: take_bit_int_eq_self)
  have nb: "\<not> bit b (32 + n)" for n
  proof -
    have "bit b (32 + n) = bit (take_bit 32 b) (32 + n)" by (simp only: tb)
    then show ?thesis by (simp add: bit_take_bit_iff)
  qed
  show "ucast (drop_bit 32 (push_bit 32 (word_of_int a :: 64 word) OR word_of_int b)) = (word_of_int a :: 32 word)"
    apply (rule bit_word_eqI)
    apply (auto simp: bit_simps nb)
    done
  show "ucast (push_bit 32 (word_of_int a :: 64 word) OR word_of_int b) = (word_of_int b :: 32 word)"
    apply (rule bit_word_eqI)
    apply (auto simp: bit_simps)
    done
qed

lemma pixel_addresses_Suc:
  "pixel_addresses from (Suc w) d = from # pixel_addresses (from + d) w d"
  by (simp add: pixel_addresses_def upt_conv_Cons map_Suc_upt[symmetric] algebra_simps del: upt_Suc)

lemma pixel_addresses_snoc:
  "pixel_addresses from (Suc w) d = pixel_addresses from w d @ [from + int w * d]"
  by (simp add: pixel_addresses_def)


lemma INNARDS32_pairs_words:
  assumes f: "\<And>p. 0 \<le> f p \<and> f p < 2 ^ 32"
  shows "concat (map (split64 be) (fst (INNARDS32_pairs be f w1 from delta)))
           = map (\<lambda>p. word_of_int (f p)) (pixel_addresses from (2 * w1) delta)
         \<and> snd (INNARDS32_pairs be f w1 from delta) = from + int (2 * w1) * delta"
proof (induction w1 arbitrary: "from")
  case 0
  then show ?case by (simp add: pixel_addresses_def)
next
  case (Suc w1)
  have pa: "pixel_addresses from (2 * Suc w1) delta
      = from # (from + delta) # pixel_addresses (from + delta + delta) (2 * w1) delta"
    by (simp add: pixel_addresses_Suc)
  have h1: "split64 be (if be then push_bit 32 (word_of_int (f from)) OR word_of_int (f (from + delta))
                else push_bit 32 (word_of_int (f (from + delta))) OR word_of_int (f from))
        = [word_of_int (f from), word_of_int (f (from + delta))]"
  proof (cases be)
    case True
    have "0 \<le> f (from + delta)" "f (from + delta) < 2 ^ 32"
      using f[of "from + delta"] by simp_all
    note hp = halves_of_pair[OF this, of "f from"]
    show ?thesis
      by (simp only: True split64_def if_True hp)
  next
    case False
    have "0 \<le> f from" "f from < 2 ^ 32"
      using f[of "from"] by simp_all
    note hp = halves_of_pair[OF this, of "f (from + delta)"]
    show ?thesis
      by (simp only: False split64_def if_False hp)
  qed
  obtain vs fin where rec: "INNARDS32_pairs be f w1 (from + delta + delta) delta = (vs, fin)"
    by (cases "INNARDS32_pairs be f w1 (from + delta + delta) delta")
  define v where "v = (if be then push_bit 32 (word_of_int (f from)) OR word_of_int (f (from + delta))
                else push_bit 32 (word_of_int (f (from + delta))) OR word_of_int (f from) :: 64 word)"
  have step: "INNARDS32_pairs be f (Suc w1) from delta = (v # vs, fin)"
    unfolding INNARDS32_pairs.simps Let_def rec v_def by simp
  have ih: "concat (map (split64 be) vs)
           = map (\<lambda>p. word_of_int (f p)) (pixel_addresses (from + delta + delta) (2 * w1) delta)"
       "fin = from + delta + delta + int (2 * w1) * delta"
    using Suc.IH[of "from + delta + delta"] rec by simp_all
  have "fin = from + int (2 * Suc w1) * delta"
    unfolding ih(2) by (simp add: algebra_simps)
  moreover have "concat (map (split64 be) (v # vs))
      = map (\<lambda>p. word_of_int (f p)) (pixel_addresses from (2 * Suc w1) delta)"
    unfolding pa using ih(1) h1[folded v_def] by simp
  ultimately show ?case
    unfolding step by simp
qed

lemma split64_single:
  assumes "0 \<le> b" "b < 2 ^ 32"
  shows "split64 be (if be then push_bit 32 (word_of_int b) else word_of_int b)
           = [word_of_int b, 0]"
proof (cases be)
  case True
  have z: "(0::int) \<le> 0" "(0::int) < 2 ^ 32" by simp_all
  have "push_bit 32 (word_of_int b :: 64 word) = push_bit 32 (word_of_int b) OR word_of_int 0"
    by simp
  then show ?thesis
    using halves_of_pair[OF z, of b] by (simp add: True split64_def)
next
  case False
  have "(word_of_int b :: 64 word) = push_bit 32 (word_of_int 0) OR word_of_int b"
    by simp
  then show ?thesis
    using halves_of_pair[OF assms, of 0] by (simp add: False split64_def)
qed

lemma INNARDS32_words:
  assumes f: "\<And>p. 0 \<le> f p \<and> f p < 2 ^ 32"
  shows "words32 cf (INNARDS32 cf f from w delta)
           = map (\<lambda>p. word_of_int (f p)) (pixel_addresses from w delta)
               @ (if has_U64 cf \<and> odd w then [0] else [])"
proof (cases "has_U64 cf")
  case False
  then show ?thesis
    by (simp add: INNARDS32_def pixel_loop_pure)
next
  case True
  obtain vs fin where rec: "INNARDS32_pairs (WORDS_BIGENDIAN cf) f (w div 2) from delta = (vs, fin)"
    by (cases "INNARDS32_pairs (WORDS_BIGENDIAN cf) f (w div 2) from delta")
  have pw: "concat (map (split64 (WORDS_BIGENDIAN cf)) vs)
           = map (\<lambda>p. word_of_int (f p)) (pixel_addresses from (2 * (w div 2)) delta)"
       "fin = from + int (2 * (w div 2)) * delta"
    using INNARDS32_pairs_words[of f "WORDS_BIGENDIAN cf" "w div 2" "from" delta] f rec
    by simp_all
  show ?thesis
  proof (cases "odd w")
    case False
    then have "2 * (w div 2) = w" by presburger
    then show ?thesis
      using pw(1) False True by (simp add: INNARDS32_def rec)
  next
    case odd: True
    then have w: "w = Suc (2 * (w div 2))" by presburger
    have pa: "pixel_addresses from w delta
        = pixel_addresses from (2 * (w div 2)) delta @ [fin]"
      unfolding pw(2) by (subst w) (simp only: pixel_addresses_snoc)
    have last: "split64 (WORDS_BIGENDIAN cf)
        (if WORDS_BIGENDIAN cf then push_bit 32 (word_of_int (f fin)) else word_of_int (f fin))
         = [word_of_int (f fin), 0]"
      using f[of fin] by (intro split64_single) simp_all
    show ?thesis
      using pw(1) odd True last by (simp add: INNARDS32_def rec pa)
  qed
qed

lemma premul_channel_bound:
  fixes c a :: uchar
  shows "0 \<le> uint c * uint a div 255 \<and> uint c * uint a div 255 \<le> 255"
proof -
  have c: "0 \<le> uint c" "uint c \<le> 255" and a: "0 \<le> uint a" "uint a \<le> 255"
    using uint_lt2p[of c] uint_lt2p[of a] by simp_all
  have "uint c * uint a \<le> 255 * 255"
    using c a by (intro mult_mono) simp_all
  then have "uint c * uint a div 255 \<le> 255 * 255 div 255"
    by (rule zdiv_mono1) simp
  moreover have "0 \<le> uint c * uint a"
    using c a by simp
  ultimately show ?thesis
    by (simp add: pos_imp_zdiv_nonneg_iff)
qed

lemma c_div_nonneg: "0 \<le> x \<Longrightarrow> 0 < y \<Longrightarrow> c_div x y = x div y"
  by (cases "x = 0") (simp_all add: c_div_def)

lemma argb_premul_value_eq:
  "argb_premul_value m p =
     uint (m (p + 3)) * 2 ^ 24 + (uint (m p) * uint (m (p + 3)) div 255) * 2 ^ 16 +
     (uint (m (p + 1)) * uint (m (p + 3)) div 255) * 2 ^ 8 +
     uint (m (p + 2)) * uint (m (p + 3)) div 255"
proof -
  define a where "a = uint (m (p + 3))"
  define ra where "ra = uint (m p) * uint (m (p + 3)) div 255"
  define ga where "ga = uint (m (p + 1)) * uint (m (p + 3)) div 255"
  define ba where "ba = uint (m (p + 2)) * uint (m (p + 3)) div 255"
  have b: "0 \<le> a" "a \<le> 255" "0 \<le> ra" "ra \<le> 255" "0 \<le> ga" "ga \<le> 255" "0 \<le> ba" "ba \<le> 255"
    using premul_channel_bound[of "m p" "m (p + 3)"] premul_channel_bound[of "m (p + 1)" "m (p + 3)"]
      premul_channel_bound[of "m (p + 2)" "m (p + 3)"] uint_lt2p[of "m (p + 3)"]
    by (simp_all add: a_def ra_def ga_def ba_def)
  have cd: "c_div (uint (m p) * uint (m (p + 3))) 255 = ra"
    "c_div (uint (m (p + 1)) * uint (m (p + 3))) 255 = ga"
    "c_div (uint (m (p + 2)) * uint (m (p + 3))) 255 = ba"
    by (simp_all add: c_div_nonneg ra_def ga_def ba_def)
  have tb: "take_bit 32 (a * 2 ^ 24 + ra * 2 ^ 16 + ga * 2 ^ 8 + ba) = a * 2 ^ 24 + ra * 2 ^ 16 + ga * 2 ^ 8 + ba"
    using b by (intro take_bit_int_eq_self) simp_all
  have "argb_premul_value m p = take_bit 32 (a * 2 ^ 24 + ra * 2 ^ 16 + ga * 2 ^ 8 + ba)"
    unfolding argb_premul_value_def as_unsigned32_def cd
    by (simp add: push_bit_eq_mult a_def)
  then have "argb_premul_value m p = a * 2 ^ 24 + ra * 2 ^ 16 + ga * 2 ^ 8 + ba"
    by (simp only: tb)
  then show ?thesis
    unfolding a_def ra_def ga_def ba_def .
qed

lemma xrgb_value_eq:
  "xrgb_value m p = uint (m p) * 2 ^ 16 + uint (m (p + 1)) * 2 ^ 8 + uint (m (p + 2))"
  by (simp add: xrgb_value_def push_bit_eq_mult)

lemma split_div:
  fixes q r c :: int
  assumes "0 \<le> r" "r < c"
  shows "(q * c + r) div c = q" and "(q * c + r) mod c = r"
  using assms by (simp_all add: div_pos_pos_trivial mod_pos_pos_trivial)

lemma length_store_bytes: "length (store_bytes be n v) = n"
  by (simp add: store_bytes_def)

lemma store_bytes_4:
  "store_bytes be 4 v =
     (if be then [ucast (drop_bit 24 v), ucast (drop_bit 16 v), ucast (drop_bit 8 v), ucast v]
      else [ucast v, ucast (drop_bit 8 v), ucast (drop_bit 16 v), ucast (drop_bit 24 v)])"
proof -
  have u: "[0..<4] = [0, 1, 2, 3]"
    by (simp add: upt_conv_Cons)
  show ?thesis
    unfolding store_bytes_def u by simp
qed

lemma store_bytes_8:
  "store_bytes be 8 v =
     (if be then [ucast (drop_bit 56 v), ucast (drop_bit 48 v), ucast (drop_bit 40 v), ucast (drop_bit 32 v),
                  ucast (drop_bit 24 v), ucast (drop_bit 16 v), ucast (drop_bit 8 v), ucast v]
      else [ucast v, ucast (drop_bit 8 v), ucast (drop_bit 16 v), ucast (drop_bit 24 v),
            ucast (drop_bit 32 v), ucast (drop_bit 40 v), ucast (drop_bit 48 v), ucast (drop_bit 56 v)])"
proof -
  have u: "[0..<8] = [0, 1, 2, 3, 4, 5, 6, 7]"
    by (simp add: upt_conv_Cons)
  show ?thesis
    unfolding store_bytes_def u by simp
qed

lemma byte_of_low_half:
  fixes v :: "64 word"
  assumes "n + 8 \<le> 32"
  shows "(ucast (drop_bit n (ucast v :: 32 word)) :: 8 word) = ucast (drop_bit n v)"
  apply (rule bit_word_eqI)
  using assms apply (auto simp: bit_simps)
  done

lemma byte_of_high_half:
  fixes v :: "64 word"
  assumes "n + 8 \<le> 32"
  shows "(ucast (drop_bit n (ucast (drop_bit 32 v) :: 32 word)) :: 8 word) = ucast (drop_bit (32 + n) v)"
  apply (rule bit_word_eqI)
  using assms apply (auto simp: bit_simps add.assoc)
  done

lemma store_bytes_split64:
  "store_bytes be 8 (v :: 64 word) = concat (map (store_bytes be 4) (split64 be v))"
proof -
  have l: "(ucast (ucast v :: 32 word) :: 8 word) = ucast v"
    using byte_of_low_half[of 0 v] by simp
  have h: "(ucast (ucast (drop_bit 32 v) :: 32 word) :: 8 word) = ucast (drop_bit 32 v)"
    using byte_of_high_half[of 0 v] by simp
  show ?thesis
    unfolding store_bytes_8 store_bytes_4 split64_def
    using byte_of_low_half[of 8 v] byte_of_low_half[of 16 v] byte_of_low_half[of 24 v]
      byte_of_high_half[of 8 v] byte_of_high_half[of 16 v] byte_of_high_half[of 24 v] l h
    by simp
qed

lemma row_bytes_words32:
  "row_bytes cf (Row32 ws) = concat (map (store_bytes (WORDS_BIGENDIAN cf) 4) (words32 cf (Row32 ws)))"
  "row_bytes cf (Row64 vs) = concat (map (store_bytes (WORDS_BIGENDIAN cf) 4) (words32 cf (Row64 vs)))"
proof -
  show "row_bytes cf (Row32 ws) = concat (map (store_bytes (WORDS_BIGENDIAN cf) 4) (words32 cf (Row32 ws)))"
    by simp
  show "row_bytes cf (Row64 vs) = concat (map (store_bytes (WORDS_BIGENDIAN cf) 4) (words32 cf (Row64 vs)))"
    by (induction vs) (simp_all add: store_bytes_split64)
qed

lemma INNARDS32_bytes:
  "row_bytes cf (INNARDS32 cf f from w delta)
     = concat (map (store_bytes (WORDS_BIGENDIAN cf) 4) (words32 cf (INNARDS32 cf f from w delta)))"
proof (cases "has_U64 cf")
  case True
  obtain vs fin where rec: "INNARDS32_pairs (WORDS_BIGENDIAN cf) f (w div 2) from delta = (vs, fin)"
    by (cases "INNARDS32_pairs (WORDS_BIGENDIAN cf) f (w div 2) from delta")
  show ?thesis
    unfolding INNARDS32_def using True by (simp only: if_True rec prod.case row_bytes_words32(2))
next
  case False
  show ?thesis
    unfolding INNARDS32_def using False by (simp only: if_False row_bytes_words32(1))
qed

lemma chunk_of_concat:
  assumes "\<And>x. length (g x) = n" and "k < length xs"
  shows "take n (drop (n * k) (concat (map g xs))) = g (xs ! k)"
  using assms(2)
proof (induction xs arbitrary: k)
  case Nil
  then show ?case by simp
next
  case (Cons x xs)
  show ?case
  proof (cases k)
    case 0
    then show ?thesis
      using assms(1)[of x] by simp
  next
    case (Suc k')
    have "k' < length xs"
      using Cons.prems Suc by simp
    then have "take n (drop (n * k') (concat (map g xs))) = g (xs ! k')"
      by (rule Cons.IH)
    moreover have "drop (n * k) (g x @ concat (map g xs)) = drop (n * k') (concat (map g xs))"
      using assms(1)[of x] Suc by simp
    ultimately show ?thesis
      using Suc by simp
  qed
qed

lemma bytes_of_value:
  fixes V :: int
  assumes "n + 8 \<le> 32"
  shows "(ucast (drop_bit n (word_of_int V :: 32 word)) :: 8 word) = word_of_int (take_bit 8 (drop_bit n V))"
  apply (rule bit_word_eqI)
  using assms apply (auto simp: bit_simps)
  done

lemma argb_premul_fields:
  "drop_bit 24 (argb_premul_value m p) = uint (m (p + 3))
   \<and> take_bit 8 (drop_bit 16 (argb_premul_value m p)) = uint (m p) * uint (m (p + 3)) div 255
   \<and> take_bit 8 (drop_bit 8 (argb_premul_value m p)) = uint (m (p + 1)) * uint (m (p + 3)) div 255
   \<and> take_bit 8 (argb_premul_value m p) = uint (m (p + 2)) * uint (m (p + 3)) div 255
   \<and> take_bit 24 (argb_premul_value m p) =
        (uint (m p) * uint (m (p + 3)) div 255) * 2 ^ 16 +
        (uint (m (p + 1)) * uint (m (p + 3)) div 255) * 2 ^ 8 +
        uint (m (p + 2)) * uint (m (p + 3)) div 255"
proof -
  define a where "a = uint (m (p + 3))"
  define ra where "ra = uint (m p) * uint (m (p + 3)) div 255"
  define ga where "ga = uint (m (p + 1)) * uint (m (p + 3)) div 255"
  define ba where "ba = uint (m (p + 2)) * uint (m (p + 3)) div 255"
  have b: "0 \<le> a" "a \<le> 255" "0 \<le> ra" "ra \<le> 255" "0 \<le> ga" "ga \<le> 255" "0 \<le> ba" "ba \<le> 255"
    using premul_channel_bound[of "m p" "m (p + 3)"] premul_channel_bound[of "m (p + 1)" "m (p + 3)"]
      premul_channel_bound[of "m (p + 2)" "m (p + 3)"] uint_lt2p[of "m (p + 3)"]
    by (simp_all add: a_def ra_def ga_def ba_def)
  have v: "argb_premul_value m p = a * 2 ^ 24 + ra * 2 ^ 16 + ga * 2 ^ 8 + ba"
    unfolding a_def ra_def ga_def ba_def by (rule argb_premul_value_eq)
  have e16: "a * 2 ^ 24 + ra * 2 ^ 16 + ga * 2 ^ 8 + ba = (a * 2 ^ 8 + ra) * 2 ^ 16 + (ga * 2 ^ 8 + ba)"
    and e8: "a * 2 ^ 24 + ra * 2 ^ 16 + ga * 2 ^ 8 + ba = (a * 2 ^ 16 + ra * 2 ^ 8 + ga) * 2 ^ 8 + ba"
    and e24: "a * 2 ^ 24 + ra * 2 ^ 16 + ga * 2 ^ 8 + ba = a * 2 ^ 24 + (ra * 2 ^ 16 + ga * 2 ^ 8 + ba)"
    by simp_all
  have 2: "drop_bit 24 (argb_premul_value m p) = a"
    unfolding v drop_bit_eq_div e24 using b by (intro split_div) simp_all
  have d16: "drop_bit 16 (argb_premul_value m p) = a * 2 ^ 8 + ra"
    unfolding v drop_bit_eq_div e16 using b by (intro split_div) simp_all
  have 3: "take_bit 8 (drop_bit 16 (argb_premul_value m p)) = ra"
    unfolding d16 take_bit_eq_mod using b by (intro split_div) simp_all
  have "drop_bit 8 (argb_premul_value m p) = (a * 2 ^ 16 + ra * 2 ^ 8) * 1 + ga"
    unfolding v drop_bit_eq_div e8 using b split_div(1)[of ba "2 ^ 8" "a * 2 ^ 16 + ra * 2 ^ 8 + ga"] by simp
  then have d8: "drop_bit 8 (argb_premul_value m p) = (a * 2 ^ 8 + ra) * 2 ^ 8 + ga"
    by simp
  have 4: "take_bit 8 (drop_bit 8 (argb_premul_value m p)) = ga"
    unfolding d8 take_bit_eq_mod using b by (intro split_div) simp_all
  have 5: "take_bit 8 (argb_premul_value m p) = ba"
    unfolding v take_bit_eq_mod e8 using b by (intro split_div) simp_all
  have 6: "take_bit 24 (argb_premul_value m p) = ra * 2 ^ 16 + ga * 2 ^ 8 + ba"
    unfolding v take_bit_eq_mod e24 using b by (intro split_div) simp_all
  show ?thesis
    using 2 3 4 5 6 unfolding a_def ra_def ga_def ba_def by blast
qed

lemma argb_premul_stored_bytes:
  "store_bytes be 4 (word_of_int (argb_premul_value m q) :: 32 word) =
     (if be
      then [m (q + 3),
            word_of_int (uint (m q) * uint (m (q + 3)) div 255),
            word_of_int (uint (m (q + 1)) * uint (m (q + 3)) div 255),
            word_of_int (uint (m (q + 2)) * uint (m (q + 3)) div 255)]
      else [word_of_int (uint (m (q + 2)) * uint (m (q + 3)) div 255),
            word_of_int (uint (m (q + 1)) * uint (m (q + 3)) div 255),
            word_of_int (uint (m q) * uint (m (q + 3)) div 255),
            m (q + 3)])"
proof -
  note f = argb_premul_fields[of m q]
  let ?V = "argb_premul_value m q"
  have b0: "(ucast (word_of_int ?V :: 32 word) :: 8 word)
              = word_of_int (uint (m (q + 2)) * uint (m (q + 3)) div 255)"
    using bytes_of_value[of 0 ?V] f by simp
  have b1: "(ucast (drop_bit 8 (word_of_int ?V :: 32 word)) :: 8 word)
              = word_of_int (uint (m (q + 1)) * uint (m (q + 3)) div 255)"
    using bytes_of_value[of 8 ?V] f by simp
  have b2: "(ucast (drop_bit 16 (word_of_int ?V :: 32 word)) :: 8 word)
              = word_of_int (uint (m q) * uint (m (q + 3)) div 255)"
    using bytes_of_value[of 16 ?V] f by simp
  have "(ucast (drop_bit 24 (word_of_int ?V :: 32 word)) :: 8 word)
              = word_of_int (take_bit 8 (uint (m (q + 3))))"
    using bytes_of_value[of 24 ?V] f by simp
  moreover have "take_bit 8 (uint (m (q + 3))) = uint (m (q + 3))"
    using uint_lt2p[of "m (q + 3)"] by (intro take_bit_int_eq_self) simp_all
  ultimately have b3: "(ucast (drop_bit 24 (word_of_int ?V :: 32 word)) :: 8 word) = m (q + 3)"
    by simp
  show ?thesis
    unfolding store_bytes_4 b0 b1 b2 b3 ..
qed

text \<open>
  Claim C2 (as amended).  The premultiplied-alpha converter stores one 32-bit value per
  pixel (on a build with a 64-bit store type two of them share a store and an odd row
  gets one empty value of padding).  The value has alpha in its top byte and, below
  it, red, green and blue each scaled to \<open>channel * alpha div 255\<close>.  It is stored in
  the byte order of the machine: the four bytes of pixel \<open>k\<close>, at offset \<open>4 * k\<close> of
  the row, are alpha, red, green, blue on a big-endian machine and blue, green, red,
  alpha on a little-endian one.  With alpha 0 the three colour bytes are 0 whatever
  the colour; with alpha 255 they are the colour bytes of the plain xrgb conversion
  of the same pixel.
\<close>

theorem argb_premul_pixel_words:
  "words32 cf (argb_premul_converter cf m from w delta)
     = map (\<lambda>p. word_of_int (argb_premul_value m p)) (pixel_addresses from w delta)
         @ (if has_U64 cf \<and> odd w then [0] else [])
   \<and> row_bytes cf (argb_premul_converter cf m from w delta)
     = concat (map (store_bytes (WORDS_BIGENDIAN cf) 4)
                 (words32 cf (argb_premul_converter cf m from w delta)))
   \<and> (k < w \<longrightarrow>
        take 4 (drop (4 * k) (row_bytes cf (argb_premul_converter cf m from w delta)))
          = (let q = from + int k * delta;
                 a = m (q + 3);
                 r = word_of_int (uint (m q) * uint a div 255);
                 g = word_of_int (uint (m (q + 1)) * uint a div 255);
                 b = word_of_int (uint (m (q + 2)) * uint a div 255)
             in if WORDS_BIGENDIAN cf then [a, r, g, b] else [b, g, r, a]))
   \<and> drop_bit 24 (argb_premul_value m p) = uint (m (p + 3))
   \<and> take_bit 8 (drop_bit 16 (argb_premul_value m p)) = uint (m p) * uint (m (p + 3)) div 255
   \<and> take_bit 8 (drop_bit 8 (argb_premul_value m p)) = uint (m (p + 1)) * uint (m (p + 3)) div 255
   \<and> take_bit 8 (argb_premul_value m p) = uint (m (p + 2)) * uint (m (p + 3)) div 255
   \<and> (m (p + 3) = 0 \<longrightarrow> take_bit 24 (argb_premul_value m p) = 0)
   \<and> (m (p + 3) = 255 \<longrightarrow> take_bit 24 (argb_premul_value m p) = xrgb_value m p)"
proof -
  note f = argb_premul_fields[of m p]
  have bounds: "\<And>q. 0 \<le> argb_premul_value m q \<and> argb_premul_value m q < 2 ^ 32"
    unfolding argb_premul_value_def as_unsigned32_def
    using take_bit_int_less_exp[of 32] by simp
  have 1: "words32 cf (argb_premul_converter cf m from w delta)
     = map (\<lambda>p. word_of_int (argb_premul_value m p)) (pixel_addresses from w delta)
         @ (if has_U64 cf \<and> odd w then [0] else [])"
    unfolding argb_premul_converter_def by (rule INNARDS32_words) (rule bounds)
  have 2: "row_bytes cf (argb_premul_converter cf m from w delta)
     = concat (map (store_bytes (WORDS_BIGENDIAN cf) 4)
                 (words32 cf (argb_premul_converter cf m from w delta)))"
    unfolding argb_premul_converter_def by (rule INNARDS32_bytes)
  have 3: "take 4 (drop (4 * k) (row_bytes cf (argb_premul_converter cf m from w delta)))
          = (let q = from + int k * delta;
                 a = m (q + 3);
                 r = word_of_int (uint (m q) * uint a div 255);
                 g = word_of_int (uint (m (q + 1)) * uint a div 255);
                 b = word_of_int (uint (m (q + 2)) * uint a div 255)
             in if WORDS_BIGENDIAN cf then [a, r, g, b] else [b, g, r, a])" if k: "k < w"
  proof -
    let ?ws = "words32 cf (argb_premul_converter cf m from w delta)"
    have len: "k < length ?ws"
      unfolding 1 using k by (simp add: pixel_addresses_def)
    have nth: "?ws ! k = word_of_int (argb_premul_value m (from + int k * delta))"
      unfolding 1 using k by (simp add: pixel_addresses_def nth_append)
    have "take 4 (drop (4 * k) (concat (map (store_bytes (WORDS_BIGENDIAN cf) 4) ?ws)))
        = store_bytes (WORDS_BIGENDIAN cf) 4 (?ws ! k)"
      using len by (intro chunk_of_concat) (simp_all add: length_store_bytes)
    then show ?thesis
      unfolding 2 nth argb_premul_stored_bytes Let_def by simp
  qed
  have 7: "m (p + 3) = 0 \<Longrightarrow> take_bit 24 (argb_premul_value m p) = 0"
    using f by simp
  have 8: "m (p + 3) = 255 \<Longrightarrow> take_bit 24 (argb_premul_value m p) = xrgb_value m p"
    using f unfolding xrgb_value_eq by simp
  show ?thesis
    using 1 2 3 f 7 8 by blast
qed

theorem argb_premul_pixel_words_witness:
  "take_bit 24 (argb_premul_value (\<lambda>q. if q = 3 then 0 else 77) 0) = 0
   \<and> take_bit 24 (argb_premul_value (\<lambda>q. if q = 3 then 255 else 77) 0)
       = xrgb_value (\<lambda>q. if q = 3 then 255 else 77) 0
   \<and> (0::nat) < 1
   \<and> take 4 (drop (4 * 0) (row_bytes example_config
        (argb_premul_converter example_config (\<lambda>q. if q = 3 then 255 else 77) 0 1 4)))
       = [77, 77, 77, 255]"
proof -
  note t0 = argb_premul_pixel_words[of example_config "\<lambda>q. if q = 3 then 0 else 77" 0 1 4 0 0]
  note t1 = argb_premul_pixel_words[of example_config "\<lambda>q. if q = 3 then 255 else 77" 0 1 4 0 0]
  have a: "take_bit 24 (argb_premul_value (\<lambda>q. if q = 3 then 0 else 77) 0) = 0"
    using t0 by simp
  have b: "take_bit 24 (argb_premul_value (\<lambda>q. if q = 3 then 255 else 77) 0)
       = xrgb_value (\<lambda>q. if q = 3 then 255 else 77) 0"
    using t1 by simp
  have c: "take 4 (drop (4 * 0) (row_bytes example_config
        (argb_premul_converter example_config (\<lambda>q. if q = 3 then 255 else 77) 0 1 4)))
       = [77, 77, 77, 255]"
    using t1[THEN conjunct2, THEN conjunct2, THEN conjunct1]
    by (simp add: example_config_def Let_def)
  show ?thesis
    using a b c by simp
qed

theorem argb_premul_bytes_host_order:
  "row_bytes example_config
     (argb_premul_converter example_config
        (\<lambda>a. [10, 20, 30, 255, 200, 100, 50, 128] ! nat (a mod 8)) 0 2 4)
     = [30, 20, 10, 255, 25, 50, 100, 128]"
  by code_simp

section \<open>Range of the error-diffusion state\<close>

lemma pixel_loop_invariant:
  assumes "\<And>p s. P s \<Longrightarrow> P (snd (body p s))" and "P s"
  shows "P (snd (pixel_loop body w from d s))"
  using assms(2)
proof (induction w arbitrary: "from" s)
  case 0
  then show ?case by simp
next
  case (Suc w)
  have "P (snd (body from s))"
    using assms(1) Suc.prems by blast
  then have "P (snd (pixel_loop body w (from + d) d (snd (body from s))))"
    by (rule Suc.IH)
  then show ?case
    by (simp add: split_beta)
qed

lemma serpentine_invariant:
  assumes "\<And>p s. P s \<Longrightarrow> P (snd (body p s))" and "P s"
  shows "P (snd (snd (serpentine body d0 from w delta s)))"
  using pixel_loop_invariant[where P = P and body = body and s = s, OF assms]
  by (simp add: serpentine_def split_beta)

lemma and_not_mask_nonneg:
  fixes r :: int
  shows "0 \<le> r \<Longrightarrow> 0 \<le> (r AND NOT k)"
  by simp

lemma color16_pixel_range:
  assumes "0 \<le> r \<and> r \<le> 255 \<and> 0 \<le> g \<and> g \<le> 255 \<and> 0 \<le> b \<and> b \<le> (255::int)"
  shows "case snd (color16_pixel dp m p (r, g, b)) of (r', g', b') \<Rightarrow>
           0 \<le> r' \<and> r' \<le> 255 \<and> 0 \<le> g' \<and> g' \<le> 255 \<and> 0 \<le> b' \<and> b' \<le> 255"
  using assms by (simp add: color16_pixel_def Let_def and_not_mask_nonneg)

lemma color16_pixel_in3: "in3 0 255 s \<Longrightarrow> in3 0 255 (snd (color16_pixel dp m p s))"
  by (cases s) (simp add: in3_def color16_pixel_def Let_def)

lemma c565_pixel_in3: "in3 0 255 s \<Longrightarrow> in3 0 255 (snd (c565_pixel m p s))"
  by (cases s) (simp add: in3_def c565_pixel_def Let_def)

lemma mono16_pixel_in: "0 \<le> r \<and> r \<le> 255 \<Longrightarrow>
    0 \<le> snd (mono16_pixel dp m p r) \<and> snd (mono16_pixel dp m p r) \<le> 255"
  by (simp add: mono16_pixel_def Let_def)

lemma m565_pixel_in: "0 \<le> r \<and> r \<le> 255 \<Longrightarrow>
    0 \<le> snd (m565_pixel m p r) \<and> snd (m565_pixel m p r) \<le> 255"
  by (simp add: m565_pixel_def Let_def)

lemma clamp8_range: "0 \<le> clamp8 x \<and> clamp8 x \<le> 255"
  by (simp add: clamp8_def)

lemma sub_uchar_range:
  fixes c :: uchar
  shows "- 255 \<le> clamp8 x - uint c \<and> clamp8 x - uint c \<le> 255"
proof -
  have "uint c < 256"
    using uint_lt2p[of c] by simp
  moreover have "0 \<le> uint c"
    by simp
  ultimately show ?thesis
    using clamp8_range[of x] by linarith
qed

lemma color8_pixel_in3: "in3 (- 255) 255 (fst (snd (color8_pixel dp pal m p s)))"
proof -
  obtain r g b xm where s: "s = ((r, g, b), xm)"
    by (metis prod.exhaust)
  show ?thesis
    unfolding s color8_pixel_def Let_def
    by (simp add: in3_def split_beta sub_uchar_range)
qed

lemma mono8_pixel_in3: "in3 (- 255) 255 (fst (snd (mono8_pixel dp pal m p s)))"
proof -
  obtain r g b xm where s: "s = ((r, g, b), xm)"
    by (metis prod.exhaust)
  show ?thesis
    unfolding s mono8_pixel_def Let_def
    by (simp add: in3_def split_beta sub_uchar_range)
qed

lemma acc_within_in3: "acc_within lo hi st \<longleftrightarrow> in3 lo hi (ri st, gi st, bi st)"
  by (simp add: acc_within_def in3_def)

lemma color16_converter_range:
  assumes "acc_within 0 255 st"
  shows "acc_within 0 255 (snd (color16_converter cf dp m from w delta st))"
proof -
  have "in3 0 255 (snd (snd (serpentine (color16_pixel dp m) (dir st) from w delta (ri st, gi st, bi st))))"
  proof (rule serpentine_invariant[where P = "in3 0 255"])
    show "in3 0 255 (ri st, gi st, bi st)"
      using assms by (simp add: acc_within_in3)
  qed (rule color16_pixel_in3)
  then show ?thesis
    by (simp add: color16_converter_def split_beta acc_within_in3 in3_def)
qed

lemma c565_converter_range:
  assumes "acc_within 0 255 st"
  shows "acc_within 0 255 (snd (c565_converter cf m from w delta st))"
proof -
  have "in3 0 255 (snd (snd (serpentine (c565_pixel m) (dir st) from w delta (ri st, gi st, bi st))))"
  proof (rule serpentine_invariant[where P = "in3 0 255"])
    show "in3 0 255 (ri st, gi st, bi st)"
      using assms by (simp add: acc_within_in3)
  qed (rule c565_pixel_in3)
  then show ?thesis
    by (simp add: c565_converter_def split_beta acc_within_in3 in3_def)
qed

lemma mono16_converter_range:
  assumes "acc_within 0 255 st"
  shows "acc_within 0 255 (snd (mono16_converter cf dp m from w delta st))"
proof -
  have "(\<lambda>r. 0 \<le> r \<and> r \<le> 255)
          (snd (snd (serpentine (mono16_pixel dp m) (dir st) from w delta (ri st))))"
  proof (rule serpentine_invariant[where P = "\<lambda>r. 0 \<le> r \<and> r \<le> 255"])
    show "0 \<le> ri st \<and> ri st \<le> 255"
      using assms by (simp add: acc_within_def)
  qed (rule mono16_pixel_in)
  then show ?thesis
    using assms by (simp add: mono16_converter_def split_beta acc_within_def)
qed

lemma m565_converter_range:
  assumes "acc_within 0 255 st"
  shows "acc_within 0 255 (snd (m565_converter cf m from w delta st))"
proof -
  have "(\<lambda>r. 0 \<le> r \<and> r \<le> 255)
          (snd (snd (serpentine (m565_pixel m) (dir st) from w delta (ri st))))"
  proof (rule serpentine_invariant[where P = "\<lambda>r. 0 \<le> r \<and> r \<le> 255"])
    show "0 \<le> ri st \<and> ri st \<le> 255"
      using assms by (simp add: acc_within_def)
  qed (rule m565_pixel_in)
  then show ?thesis
    using assms by (simp add: m565_converter_def split_beta acc_within_def)
qed

lemma color8_converter_range:
  assumes "acc_within (- 255) 255 st"
  shows "acc_within (- 255) 255 (fst (snd (color8_converter dp pal m from w delta (st, xm))))"
proof -
  have "(\<lambda>s. in3 (- 255) 255 (fst s))
          (snd (snd (serpentine (color8_pixel dp pal m) (dir st) from w delta
                       ((ri st, gi st, bi st), xm))))"
  proof (rule serpentine_invariant[where P = "\<lambda>s. in3 (- 255) 255 (fst s)"])
    show "in3 (- 255) 255 (fst ((ri st, gi st, bi st), xm))"
      using assms by (simp add: acc_within_in3)
  qed (rule color8_pixel_in3)
  then show ?thesis
    by (simp add: color8_converter_def split_beta acc_within_in3 in3_def)
qed

lemma mono8_converter_range:
  assumes "acc_within (- 255) 255 st"
  shows "acc_within (- 255) 255 (fst (snd (mono8_converter dp pal m from w delta (st, xm))))"
proof -
  have "(\<lambda>s. in3 (- 255) 255 (fst s))
          (snd (snd (serpentine (mono8_pixel dp pal m) (dir st) from w delta
                       ((ri st, gi st, bi st), xm))))"
  proof (rule serpentine_invariant[where P = "\<lambda>s. in3 (- 255) 255 (fst s)"])
    show "in3 (- 255) 255 (fst ((ri st, gi st, bi st), xm))"
      using assms by (simp add: acc_within_in3)
  qed (rule mono8_pixel_in3)
  then show ?thesis
    by (simp add: mono8_converter_def split_beta acc_within_in3 in3_def)
qed

lemma run_conv_range16:
  assumes "c \<in> {Color16, Mono16, C565, M565}" and "acc_within 0 255 (dith g)"
  shows "acc_within 0 255 (dith (snd (run_conv cf dp pal c m from w delta g)))"
proof -
  consider "c = Color16" | "c = Mono16" | "c = C565" | "c = M565"
    using assms(1) by blast
  then show ?thesis
  proof cases
    case 1
    then show ?thesis
      using color16_converter_range[OF assms(2), of cf dp m "from" w delta]
      by (simp add: run_conv_def split_beta)
  next
    case 2
    then show ?thesis
      using mono16_converter_range[OF assms(2), of cf dp m "from" w delta]
      by (simp add: run_conv_def split_beta)
  next
    case 3
    then show ?thesis
      using c565_converter_range[OF assms(2), of cf m "from" w delta]
      by (simp add: run_conv_def split_beta)
  next
    case 4
    then show ?thesis
      using m565_converter_range[OF assms(2), of cf m "from" w delta]
      by (simp add: run_conv_def split_beta)
  qed
qed

lemma run_conv_range8:
  assumes "c \<in> {Color8, Mono8}" and "acc_within (- 255) 255 (dith g)"
  shows "acc_within (- 255) 255 (dith (snd (run_conv cf dp pal c m from w delta g)))"
proof -
  consider "c = Color8" | "c = Mono8"
    using assms(1) by blast
  then show ?thesis
  proof cases
    case 1
    then show ?thesis
      using color8_converter_range[OF assms(2), of dp pal m "from" w delta "fl_xmap g"]
      by (simp add: run_conv_def split_beta)
  next
    case 2
    then show ?thesis
      using mono8_converter_range[OF assms(2), of dp pal m "from" w delta "fl_xmap g"]
      by (simp add: run_conv_def split_beta)
  qed
qed

text \<open>
  Claim C4 (as amended).  Over any sequence of rows of any length, the saved
  red/green/blue error values of the 16-bit error-diffusion converters (generic
  and 5-6-5, colour and mono) stay within [0,255] when they start there, as the
  initial zero state does.  For the 8-bit palette converters the running value is
  clamped to [0,255] after the sample is added, but the value that is carried on,
  after the colour of the chosen palette entry has been subtracted, lies within
  [-255,255]: it can be negative.
\<close>

theorem error_accumulators_bounded:
  "(c \<in> {Color16, Mono16, C565, M565} \<and> acc_within 0 255 (dith g) \<longrightarrow>
      acc_within 0 255 (dith (convert_calls cf dp pal c calls g)))
   \<and> (c \<in> {Color8, Mono8} \<and> acc_within (- 255) 255 (dith g) \<longrightarrow>
      acc_within (- 255) 255 (dith (convert_calls cf dp pal c calls g)))"
proof (induction calls arbitrary: g)
  case Nil
  then show ?case by simp
next
  case (Cons call calls)
  obtain m "from" w delta where call: "call = (m, from, w, delta)"
    by (cases call)
  define g1 where "g1 = snd (run_conv cf dp pal c m from w delta g)"
  have step: "convert_calls cf dp pal c (call # calls) g = convert_calls cf dp pal c calls g1"
    by (simp add: call g1_def)
  have a: "c \<in> {Color16, Mono16, C565, M565} \<Longrightarrow> acc_within 0 255 (dith g)
             \<Longrightarrow> acc_within 0 255 (dith g1)"
    unfolding g1_def by (rule run_conv_range16)
  have b: "c \<in> {Color8, Mono8} \<Longrightarrow> acc_within (- 255) 255 (dith g)
             \<Longrightarrow> acc_within (- 255) 255 (dith g1)"
    unfolding g1_def by (rule run_conv_range8)
  show ?case
    unfolding step using Cons.IH[of g1] a b by blast
qed

theorem error_accumulators_bounded_witness:
  "C565 \<in> {Color16, Mono16, C565, M565} \<and> acc_within 0 255 (dith initial_globals)
   \<and> acc_within 0 255 (dith (convert_calls example_config display_565 example_palette C565
      [(\<lambda>a. 200, 0, 3, 3), (\<lambda>a. 255, 0, 2, 3)] initial_globals))
   \<and> Color8 \<in> {Color8, Mono8} \<and> acc_within (- 255) 255 (dith initial_globals)
   \<and> acc_within (- 255) 255 (dith (convert_calls example_config display_pseudo8 example_palette Color8
      [(\<lambda>a. if a = 0 then 52 else 0, 0, 1, 3)] initial_globals))"
proof -
  have h: "acc_within 0 255 (dith initial_globals)" "acc_within (- 255) 255 (dith initial_globals)"
    by (simp_all add: acc_within_def initial_globals_def)
  show ?thesis
    using h error_accumulators_bounded[of C565 initial_globals example_config display_565 example_palette
          "[(\<lambda>a. 200, 0, 3, 3), (\<lambda>a. 255, 0, 2, 3)]"]
        error_accumulators_bounded[of Color8 initial_globals example_config display_pseudo8 example_palette
          "[(\<lambda>a. if a = 0 then 52 else 0, 0, 1, 3)]"]
    by (simp del: convert_calls.simps)
qed

theorem color8_accumulator_negative:
  "dith (convert_calls example_config display_pseudo8 example_palette Color8
      [(\<lambda>a. if a = 0 then 52 else 0, 0, 1, 3)] initial_globals)
     = \<lparr>dir = 1, ri = - 11, gi = 0, bi = 0\<rparr>
   \<and> \<not> acc_within 0 255 (dith (convert_calls example_config display_pseudo8 example_palette Color8
      [(\<lambda>a. if a = 0 then 52 else 0, 0, 1, 3)] initial_globals))"
proof -
  have v: "dith (convert_calls example_config display_pseudo8 example_palette Color8
      [(\<lambda>a. if a = 0 then 52 else 0, 0, 1, 3)] initial_globals)
     = \<lparr>dir = 1, ri = - 11, gi = 0, bi = 0\<rparr>"
    by code_simp
  show ?thesis
    unfolding v by (simp add: acc_within_def)
qed

section \<open>Selection of the 16-bit converters\<close>

lemma and7_idem: "(r AND 7) AND 7 = (r AND (7::int))"
  by (simp add: and.assoc)

lemma c565_pixel_low_bits:
  "c565_pixel m p (r, g, b) = c565_pixel m p (r AND 7, g AND 3, b AND 7)"
  by (simp add: c565_pixel_def and.assoc)

lemma m565_pixel_low_bits:
  "m565_pixel m p r = m565_pixel m p (r AND 7)"
  by (simp add: m565_pixel_def and.assoc)

text \<open>
  Claim C5 (as amended).  When the display has 2 bytes per pixel, converter selection
  picks the specialised pair (c565, m565) exactly when red shift, green shift, blue
  shift and extra shift are 11, 6, 0 and 3, and the generic pair (color16, mono16)
  otherwise.  The specialised pair uses fixed shifts and masks and still diffuses
  error: what a pixel's conversion takes from the carried state is its low bits
  (3, 2 and 3 bits of red, green and blue; 3 bits in the mono case), and nothing
  else of it.
\<close>

theorem select_16bit_converters:
  assumes "pfv_bits_per_pixel dp = 16" and "figure_out_visual cf dp g = Inr g'"
  shows "(converter g', mono_converter g') =
           (if fl_redshift dp = 11 \<and> fl_greenshift dp = 6 \<and> fl_blueshift dp = 0 \<and> fl_extrashift dp = 3
            then (Some C565, Some M565) else (Some Color16, Some Mono16))
         \<and> c565_pixel m p (r, gr, b) = c565_pixel m p (r AND 7, gr AND 3, b AND 7)
         \<and> m565_pixel m p r = m565_pixel m p (r AND 7)"
proof -
  have a: "(16::int) AND 7 = 0" "c_div 16 8 = 2"
    by (simp_all add: c_div_def)
  have "(converter g', mono_converter g') =
           (if fl_redshift dp = 11 \<and> fl_greenshift dp = 6 \<and> fl_blueshift dp = 0 \<and> fl_extrashift dp = 3
            then (Some C565, Some M565) else (Some Color16, Some Mono16))"
    using assms(2) unfolding figure_out_visual_def Let_def
    by (auto simp: assms(1) a select_truecolor_def visual_case_2_def Let_def split: if_splits)
  then show ?thesis
    using c565_pixel_low_bits m565_pixel_low_bits by blast
qed

theorem select_16bit_converters_witness:
  "pfv_bits_per_pixel display_565 = 16
   \<and> (\<exists>g'. figure_out_visual example_config display_565 initial_globals = Inr g'
        \<and> (converter g', mono_converter g') = (Some C565, Some M565))
   \<and> c565_pixel (\<lambda>a. 1) 0 (15, 7, 15) = c565_pixel (\<lambda>a. 1) 0 (7, 3, 7)"
proof -
  obtain g' where g': "figure_out_visual example_config display_565 initial_globals = Inr g'"
    using figure_out_visual_565[of display_565 example_config initial_globals]
    by (simp add: display_565_def example_config_def)
  have b: "pfv_bits_per_pixel display_565 = 16"
    by (simp add: display_565_def)
  have l: "fl_redshift display_565 = 11 \<and> fl_greenshift display_565 = 6 \<and>
           fl_blueshift display_565 = 0 \<and> fl_extrashift display_565 = 3"
    by (simp add: display_565_def)
  show ?thesis
    using select_16bit_converters[OF b g', of "\<lambda>a. 1" 0 15 7 15] b g' l
    by simp
qed

theorem c565_output_depends_on_carry:
  "map_sum id converter (figure_out_visual example_config display_565 initial_globals) = Inr (Some C565)
   \<and> fst (c565_converter example_config (\<lambda>a. if a = 0 then 7 else if a = 3 then 1 else 0) 0 2 3
            (dith initial_globals)) = Row16 [0, 0x800]
   \<and> fst (c565_converter example_config (\<lambda>a. if a = 3 then 1 else 0) 0 2 3
            (dith initial_globals)) = Row16 [0, 0]"
proof -
  have "map_sum id converter (figure_out_visual example_config display_565 initial_globals)
          = Inr (Some C565)"
    using figure_out_visual_565[of display_565 example_config initial_globals]
    by (simp add: display_565_def example_config_def)
  moreover have "fst (c565_converter example_config (\<lambda>a. if a = 0 then 7 else if a = 3 then 1 else 0) 0 2 3
            (dith initial_globals)) = Row16 [0, 0x800]
   \<and> fst (c565_converter example_config (\<lambda>a. if a = 3 then 1 else 0) 0 2 3
            (dith initial_globals)) = Row16 [0, 0]"
    by code_simp
  ultimately show ?thesis
    by blast
qed

section \<open>The streaming engine: frame, loops and requests\<close>

lemma same_but_dither_refl: "same_but_dither g g"
  unfolding same_but_dither_def by simp

lemma same_but_dither_trans:
  assumes "same_but_dither g g'" and "same_but_dither g' g''"
  shows "same_but_dither g g''"
proof -
  have "g''\<lparr>dith := dith g, fl_xmap := fl_xmap g\<rparr>
      = (g''\<lparr>dith := dith g', fl_xmap := fl_xmap g'\<rparr>)\<lparr>dith := dith g, fl_xmap := fl_xmap g\<rparr>"
    by simp
  also have "\<dots> = g'\<lparr>dith := dith g, fl_xmap := fl_xmap g\<rparr>"
    using assms(2) unfolding same_but_dither_def by simp
  also have "\<dots> = g"
    using assms(1) unfolding same_but_dither_def by simp
  finally show ?thesis
    unfolding same_but_dither_def .
qed

lemma same_but_dither_fields:
  assumes "same_but_dither g g'"
  shows "puts g' = puts g" "bytes_per_pixel g' = bytes_per_pixel g" "xi_depth g' = xi_depth g"
    "xi_bits_per_pixel g' = xi_bits_per_pixel g" "converter g' = converter g"
    "mono_converter g' = mono_converter g" "scanline_add g' = scanline_add g"
    "scanline_mask g' = scanline_mask g" "buffer_size g' = buffer_size g" "gc32 g' = gc32 g"
proof -
  have e: "g = g'\<lparr>dith := dith g, fl_xmap := fl_xmap g\<rparr>"
    using assms unfolding same_but_dither_def by simp
  show "puts g' = puts g" by (subst e) simp
  show "bytes_per_pixel g' = bytes_per_pixel g" by (subst e) simp
  show "xi_depth g' = xi_depth g" by (subst e) simp
  show "xi_bits_per_pixel g' = xi_bits_per_pixel g" by (subst e) simp
  show "converter g' = converter g" by (subst e) simp
  show "mono_converter g' = mono_converter g" by (subst e) simp
  show "scanline_add g' = scanline_add g" by (subst e) simp
  show "scanline_mask g' = scanline_mask g" by (subst e) simp
  show "buffer_size g' = buffer_size g" by (subst e) simp
  show "gc32 g' = gc32 g" by (subst e) simp
qed

lemma run_conv_same: "same_but_dither g (snd (run_conv cf dp pal c m from w delta g))"
  by (cases c) (simp_all add: run_conv_def split_beta same_but_dither_def)

lemma convert_row_Inr:
  assumes "convert_row jb j src g = Inr (row, src', g')"
  shows "same_but_dither g g' \<and> (source_ok jb src \<longrightarrow> source_ok jb src')"
  using assms run_conv_same
  by (auto simp: convert_row_def source_ok_def Let_def
           split: pixel_source.splits option.splits prod.splits)
     (metis snd_conv)+

lemma convert_row_ok:
  assumes "source_ok jb src"
  shows "\<exists>row src' g'. convert_row jb j src g = Inr (row, src', g')"
  using assms
  by (auto simp: convert_row_def source_ok_def Let_def
           split: pixel_source.splits option.splits prod.splits)

lemma convert_rows_ok:
  assumes "source_ok jb src"
  shows "\<exists>src' rows' g'.
           convert_rows jb k j src rows g =
             Inr (k + int (nat (min (job_h jb - j) (job_blocking jb - k))),
                  j + int (nat (min (job_h jb - j) (job_blocking jb - k))), src', rows', g')
           \<and> same_but_dither g g' \<and> source_ok jb src'"
  using assms
proof (induction jb k j src rows g rule: convert_rows.induct)
  case (1 jb k j src rows g)
  show ?case
  proof (cases "j < job_h jb \<and> k < job_blocking jb")
    case False
    then have "nat (min (job_h jb - j) (job_blocking jb - k)) = 0"
      by auto
    moreover have "convert_rows jb k j src rows g = Inr (k, j, src, rows, g)"
      by (subst convert_rows.simps) (simp only: False simp_thms if_False)
    ultimately show ?thesis
      using "1.prems" by (simp add: same_but_dither_refl)
  next
    case True
    obtain row src1 g1 where row: "convert_row jb j src g = Inr (row, src1, g1)"
      using convert_row_ok[OF "1.prems"] by blast
    have s1: "same_but_dither g g1" "source_ok jb src1"
      using convert_row_Inr[OF row] "1.prems" by simp_all
    define n' where "n' = int (nat (min (job_h jb - (j + 1)) (job_blocking jb - (k + 1))))"
    define n where "n = int (nat (min (job_h jb - j) (job_blocking jb - k)))"
    have n: "n = 1 + n'"
      unfolding n_def n'_def using True by auto
    obtain src' rows' g' where rec:
      "convert_rows jb (k + 1) (j + 1) src1 (rows @ [row]) g1 =
         Inr (k + 1 + n', j + 1 + n', src', rows', g')"
      "same_but_dither g1 g'" "source_ok jb src'"
      using "1.IH"[OF True row refl refl s1(2)] unfolding n'_def by blast
    have "convert_rows jb k j src rows g = convert_rows jb (k + 1) (j + 1) src1 (rows @ [row]) g1"
      by (subst convert_rows.simps) (simp only: True simp_thms if_True row sum.case prod.case)
    then have "convert_rows jb k j src rows g = Inr (k + n, j + n, src', rows', g')"
      unfolding rec(1) n by (simp add: algebra_simps)
    then show ?thesis
      using rec(3) same_but_dither_trans[OF s1(1) rec(2)] unfolding n_def by blast
  qed
qed

lemma XPutImage_fields:
  "puts (XPutImage jb rows y k g) = puts g @ [\<lparr>put_gc = job_gc jb, put_rows = rows,
            put_dest_x = job_X jb + job_dx jb, put_dest_y = y,
            put_width = job_w jb, put_height = k\<rparr>]"
  "descriptor (XPutImage jb rows y k g) = descriptor g"
  "converter (XPutImage jb rows y k g) = converter g"
  "mono_converter (XPutImage jb rows y k g) = mono_converter g"
  by (simp_all add: XPutImage_def descriptor_def)

lemma same_but_dither_descriptor:
  "same_but_dither g g' \<Longrightarrow> descriptor g' = descriptor g"
  by (simp add: descriptor_def same_but_dither_fields)

lemma run_conv_cong:
  assumes "dith g = dith g'" and "fl_xmap g = fl_xmap g'"
  shows "fst (run_conv cf dp pal c m from w delta g) = fst (run_conv cf dp pal c m from w delta g')
       \<and> dith (snd (run_conv cf dp pal c m from w delta g))
           = dith (snd (run_conv cf dp pal c m from w delta g'))
       \<and> fl_xmap (snd (run_conv cf dp pal c m from w delta g))
           = fl_xmap (snd (run_conv cf dp pal c m from w delta g'))"
  by (cases c) (simp_all add: run_conv_def split_beta assms)

lemma converted_rows_cong:
  "dith g = dith g' \<Longrightarrow> fl_xmap g = fl_xmap g' \<Longrightarrow>
   converted_rows cf dp pal c calls g = converted_rows cf dp pal c calls g'"
proof (induction calls arbitrary: g g')
  case Nil
  then show ?case by simp
next
  case (Cons call calls)
  obtain m "from" w delta where call: "call = (m, from, w, delta)"
    by (cases call)
  note rc = run_conv_cong[OF Cons.prems, of cf dp pal c m "from" w delta]
  have "converted_rows cf dp pal c calls (snd (run_conv cf dp pal c m from w delta g))
      = converted_rows cf dp pal c calls (snd (run_conv cf dp pal c m from w delta g'))"
    using rc by (intro Cons.IH) simp_all
  then show ?case
    unfolding call converted_rows.simps using rc by simp
qed

lemma converted_rows_append:
  "converted_rows cf dp pal c (xs @ ys) g =
     converted_rows cf dp pal c xs g @ converted_rows cf dp pal c ys (convert_calls cf dp pal c xs g)"
proof (induction xs arbitrary: g)
  case Nil
  then show ?case by simp
next
  case (Cons call xs)
  obtain m "from" w delta where call: "call = (m, from, w, delta)"
    by (cases call)
  show ?case
    unfolding call using Cons.IH by simp
qed

lemma convert_calls_append:
  "convert_calls cf dp pal c (xs @ ys) g = convert_calls cf dp pal c ys (convert_calls cf dp pal c xs g)"
proof (induction xs arbitrary: g)
  case Nil
  then show ?case by simp
next
  case (Cons call xs)
  obtain m "from" w delta where call: "call = (m, from, w, delta)"
    by (cases call)
  show ?case
    unfolding call using Cons.IH by simp
qed

lemma length_converted_rows:
  "length (converted_rows cf dp pal c calls g) = length calls"
proof (induction calls arbitrary: g)
  case Nil
  then show ?case by simp
next
  case (Cons call calls)
  obtain m "from" w delta where call: "call = (m, from, w, delta)"
    by (cases call)
  show ?case
    unfolding call using Cons.IH by simp
qed

lemma length_callback_lines: "length (callback_lines f x w y lb n) = n"
  by (induction n arbitrary: y lb) simp_all

lemma callback_lines_add:
  "callback_lines f x w y lb (a + b) =
     callback_lines f x w y lb a @
       callback_lines f x w (y + int a) (last (lb # callback_lines f x w y lb a)) b"
proof (induction a arbitrary: y lb)
  case 0
  then show ?case by simp
next
  case (Suc a)
  have e: "y + int (Suc a) = y + 1 + int a"
    by simp
  show ?case
    unfolding e using Suc.IH[of "y + 1" "f x y w lb"] by simp
qed

lemma upt_shift: "map f [a..<a + b] = map (\<lambda>i. f (a + i)) [0..<b]"
  by (induction b) simp_all

lemma job_calls_add:
  "job_calls jb j src (a + b) =
     job_calls jb j src a @ job_calls jb (j + int a) (source_after jb j src a) b"
proof (cases src)
  case (Buffer p)
  have u: "[0..<a + b] = [0..<a] @ [a..<a + b]"
    by (rule upt_add_eq_append) simp
  have e: "p + job_linedelta jb * int (a + i) = p + job_linedelta jb * int a + job_linedelta jb * int i" for i
    by (simp add: algebra_simps)
  have "map (\<lambda>i. (job_mem jb, p + job_linedelta jb * int i, nat (job_w jb), job_delta jb)) [a..<a + b]
      = map (\<lambda>i. (job_mem jb, p + job_linedelta jb * int a + job_linedelta jb * int i,
                  nat (job_w jb), job_delta jb)) [0..<b]"
    unfolding upt_shift e ..
  then show ?thesis
    unfolding Buffer job_calls_def source_after_def pixel_source.case u map_append by simp
next
  case (Line_buffer lb)
  show ?thesis
  proof (cases "job_cb jb")
    case None
    then show ?thesis
      by (simp add: Line_buffer job_calls_def source_after_def)
  next
    case (Some f)
    have e: "job_dy jb + (j + int a) = job_dy jb + j + int a"
      by simp
    show ?thesis
      unfolding Line_buffer job_calls_def source_after_def pixel_source.case Some option.case e
        callback_lines_add[of f "job_dx jb" "job_w jb" "job_dy jb + j" lb a b] map_append ..
  qed
qed

lemma source_after_add:
  "source_after jb j src (a + b) = source_after jb (j + int a) (source_after jb j src a) b"
proof (cases src)
  case (Buffer p)
  then show ?thesis
    by (simp add: source_after_def algebra_simps)
next
  case (Line_buffer lb)
  show ?thesis
  proof (cases "job_cb jb")
    case None
    then show ?thesis
      by (simp add: Line_buffer source_after_def)
  next
    case (Some f)
    have e: "job_dy jb + (j + int a) = job_dy jb + j + int a"
      by simp
    show ?thesis
      unfolding Line_buffer source_after_def pixel_source.case Some option.case e
        callback_lines_add[of f "job_dx jb" "job_w jb" "job_dy jb + j" lb a b]
      by (simp add: length_callback_lines)
  qed
qed

lemma job_calls_0: "job_calls jb j src 0 = []"
  by (simp add: job_calls_def split: pixel_source.splits option.splits)

lemma source_after_0: "source_after jb j src 0 = src"
  by (simp add: source_after_def split: pixel_source.splits option.splits)

lemma length_job_calls:
  "source_ok jb src \<Longrightarrow> length (job_calls jb j src n) = n"
  by (auto simp: job_calls_def source_ok_def length_callback_lines
           split: pixel_source.splits option.splits)

lemma convert_row_call:
  assumes ok: "source_ok jb src" and cv: "job_conv jb = Some c"
  shows "convert_row jb j src g =
           Inr (fst (run_conv (job_cf jb) (job_dp jb) (job_pal jb) c
                       (fst (hd (job_calls jb j src 1))) (fst (snd (hd (job_calls jb j src 1))))
                       (nat (job_w jb)) (job_delta jb) g),
                source_after jb j src 1,
                snd (run_conv (job_cf jb) (job_dp jb) (job_pal jb) c
                       (fst (hd (job_calls jb j src 1))) (fst (snd (hd (job_calls jb j src 1))))
                       (nat (job_w jb)) (job_delta jb) g))
       \<and> job_calls jb j src 1 =
           [(fst (hd (job_calls jb j src 1)), fst (snd (hd (job_calls jb j src 1))),
             nat (job_w jb), job_delta jb)]"
proof (cases src)
  case (Buffer p)
  then show ?thesis
    using cv by (simp add: convert_row_def job_calls_def source_after_def split_beta)
next
  case (Line_buffer lb)
  then obtain f where f: "job_cb jb = Some f"
    using ok by (auto simp: source_ok_def)
  show ?thesis
    using cv by (simp add: Line_buffer f convert_row_def job_calls_def source_after_def
                   split_beta Let_def)
qed

lemma convert_rows_result:
  assumes ok: "source_ok jb src" and cv: "job_conv jb = Some c"
  shows "convert_rows jb k j src rows g =
           Inr (k + int (nat (min (job_h jb - j) (job_blocking jb - k))),
                j + int (nat (min (job_h jb - j) (job_blocking jb - k))),
                source_after jb j src (nat (min (job_h jb - j) (job_blocking jb - k))),
                rows @ converted_rows (job_cf jb) (job_dp jb) (job_pal jb) c
                         (job_calls jb j src (nat (min (job_h jb - j) (job_blocking jb - k)))) g,
                convert_calls (job_cf jb) (job_dp jb) (job_pal jb) c
                  (job_calls jb j src (nat (min (job_h jb - j) (job_blocking jb - k)))) g)"
  using ok cv
proof (induction jb k j src rows g rule: convert_rows.induct)
  case (1 jb k j src rows g)
  note ok' = "1.prems"(1) and cv' = "1.prems"(2)
  show ?case
  proof (cases "j < job_h jb \<and> k < job_blocking jb")
    case False
    then have n0: "nat (min (job_h jb - j) (job_blocking jb - k)) = 0"
      by auto
    have "convert_rows jb k j src rows g = Inr (k, j, src, rows, g)"
      by (subst convert_rows.simps) (simp only: False simp_thms if_False)
    then show ?thesis
      unfolding n0 by (simp add: job_calls_0 source_after_0)
  next
    case True
    define n' where "n' = nat (min (job_h jb - (j + 1)) (job_blocking jb - (k + 1)))"
    have n: "nat (min (job_h jb - j) (job_blocking jb - k)) = 1 + n'"
      unfolding n'_def using True by auto
    define m0 where "m0 = fst (hd (job_calls jb j src 1))"
    define p0 where "p0 = fst (snd (hd (job_calls jb j src 1)))"
    define row where "row = fst (run_conv (job_cf jb) (job_dp jb) (job_pal jb) c m0 p0
                                   (nat (job_w jb)) (job_delta jb) g)"
    define g1 where "g1 = snd (run_conv (job_cf jb) (job_dp jb) (job_pal jb) c m0 p0
                                   (nat (job_w jb)) (job_delta jb) g)"
    define src1 where "src1 = source_after jb j src 1"
    have cr: "convert_row jb j src g = Inr (row, src1, g1)"
      and c1: "job_calls jb j src 1 = [(m0, p0, nat (job_w jb), job_delta jb)]"
      using convert_row_call[OF ok' cv', of j g]
      unfolding m0_def p0_def row_def g1_def src1_def by simp_all
    have ok1: "source_ok jb src1"
      using convert_row_Inr[OF cr] ok' by simp
    have step: "convert_rows jb k j src rows g
        = convert_rows jb (k + 1) (j + 1) src1 (rows @ [row]) g1"
      by (subst convert_rows.simps) (simp only: True simp_thms if_True cr sum.case prod.case)
    have calls: "job_calls jb j src (1 + n') = job_calls jb j src 1 @ job_calls jb (j + 1) src1 n'"
      using job_calls_add[of jb j src 1 n'] by (simp add: src1_def)
    have after: "source_after jb j src (1 + n') = source_after jb (j + 1) src1 n'"
      using source_after_add[of jb j src 1 n'] by (simp add: src1_def)
    have r1: "converted_rows (job_cf jb) (job_dp jb) (job_pal jb) c (job_calls jb j src 1) g = [row]"
      and s1: "convert_calls (job_cf jb) (job_dp jb) (job_pal jb) c (job_calls jb j src 1) g = g1"
      unfolding c1 row_def g1_def by simp_all
    have ih: "convert_rows jb (k + 1) (j + 1) src1 (rows @ [row]) g1 =
           Inr (k + 1 + int n', j + 1 + int n', source_after jb (j + 1) src1 n',
                (rows @ [row]) @ converted_rows (job_cf jb) (job_dp jb) (job_pal jb) c
                         (job_calls jb (j + 1) src1 n') g1,
                convert_calls (job_cf jb) (job_dp jb) (job_pal jb) c
                  (job_calls jb (j + 1) src1 n') g1)"
      using "1.IH"[OF True cr refl refl ok1 cv'] unfolding n'_def .
    show ?thesis
      unfolding step ih n calls after converted_rows_append convert_calls_append r1 s1
      by simp
  qed
qed

lemma tiles_starts:
  "tiles j h rs \<Longrightarrow> (s, k) \<in> set rs \<Longrightarrow> j \<le> s"
proof (induction rs arbitrary: j)
  case Nil
  then show ?case by simp
next
  case (Cons r rs)
  obtain s' k' where r: "r = (s', k')"
    by (cases r)
  show ?case
  proof (cases "(s, k) = r")
    case True
    then show ?thesis
      using Cons.prems(1) r by simp
  next
    case False
    then have "(s, k) \<in> set rs"
      using Cons.prems(2) by simp
    moreover have "tiles (j + k') h rs" and "0 < k'"
      using Cons.prems(1) r by simp_all
    ultimately show ?thesis
      using Cons.IH[of "j + k'"] by simp
  qed
qed

lemma rows_of_request:
  assumes "tiles j h (row_ranges y0 ps)"
      and "\<forall>p \<in> set ps. length (put_rows p) = nat (put_height p)"
      and "q \<in> set ps"
  shows "put_rows q = take (nat (put_height q))
                        (drop (nat (put_dest_y q - y0 - j)) (concat (map put_rows ps)))"
  using assms
proof (induction ps arbitrary: j)
  case Nil
  then show ?case by simp
next
  case (Cons p ps)
  have p: "put_dest_y p - y0 = j" "0 < put_height p" "tiles (j + put_height p) h (row_ranges y0 ps)"
    using Cons.prems(1) by (simp_all add: row_ranges_def)
  have lp: "length (put_rows p) = nat (put_height p)"
    using Cons.prems(2) by simp
  show ?case
  proof (cases "q = p")
    case True
    then show ?thesis
      using p(1) lp by simp
  next
    case False
    then have q: "q \<in> set ps"
      using Cons.prems(3) by simp
    have "(put_dest_y q - y0, put_height q) \<in> set (row_ranges y0 ps)"
      using q by (auto simp: row_ranges_def)
    then have ge: "j + put_height p \<le> put_dest_y q - y0"
      using tiles_starts[OF p(3)] by blast
    have ih: "put_rows q = take (nat (put_height q))
                        (drop (nat (put_dest_y q - y0 - (j + put_height p))) (concat (map put_rows ps)))"
      using Cons.IH[OF p(3) _ q] Cons.prems(2) by simp
    have "nat (put_dest_y q - y0 - j) = nat (put_height p) + nat (put_dest_y q - y0 - (j + put_height p))"
      using ge p(2) by simp
    then have "drop (nat (put_dest_y q - y0 - j)) (concat (map put_rows (p # ps)))
        = drop (nat (put_dest_y q - y0 - (j + put_height p))) (concat (map put_rows ps))"
      using lp by simp
    then show ?thesis
      using ih by simp
  qed
qed

lemma XPutImage_dith:
  "dith (XPutImage jb rows y k g) = dith g" "fl_xmap (XPutImage jb rows y k g) = fl_xmap g"
  by (simp_all add: XPutImage_def)

lemma put_chunks_tiles:
  assumes blk: "0 < job_blocking jb" and ok: "source_ok jb src" and cv: "job_conv jb = Some c"
  shows "\<exists>g' new. put_chunks jb j src g = Some (Inr g')
        \<and> descriptor g' = descriptor g
        \<and> converter g' = converter g \<and> mono_converter g' = mono_converter g
        \<and> puts g' = puts g @ new
        \<and> tiles j (job_h jb) (row_ranges (job_Y jb + job_dy jb) new)
        \<and> (\<forall>p \<in> set new. put_height p \<le> job_blocking jb \<and> put_width p = job_w jb
                \<and> put_dest_x p = job_X jb + job_dx jb \<and> put_gc p = job_gc jb
                \<and> length (put_rows p) = nat (put_height p))
        \<and> concat (map put_rows new) =
            converted_rows (job_cf jb) (job_dp jb) (job_pal jb) c
              (job_calls jb j src (nat (job_h jb - j))) g"
  using ok
proof (induction "nat (job_h jb - j)" arbitrary: j src g rule: less_induct)
  case less
  show ?case
  proof (cases "j < job_h jb")
    case False
    have "put_chunks jb j src g = Some (Inr g)"
      by (subst put_chunks.simps) (simp only: False if_False)
    moreover have "nat (job_h jb - j) = 0"
      using False by simp
    ultimately show ?thesis
      using False by (intro exI[of _ g] exI[of _ "[]"]) (simp add: row_ranges_def job_calls_0)
  next
    case True
    define N where "N = nat (min (job_h jb - j) (job_blocking jb - 0))"
    define n where "n = int N"
    have n: "0 < n" "j + n \<le> job_h jb" "n \<le> job_blocking jb"
      unfolding n_def N_def using True blk by auto
    define src' where "src' = source_after jb j src N"
    define rows' where "rows' = converted_rows (job_cf jb) (job_dp jb) (job_pal jb) c
                                  (job_calls jb j src N) g"
    define g1 where "g1 = convert_calls (job_cf jb) (job_dp jb) (job_pal jb) c
                                  (job_calls jb j src N) g"
    have rows: "convert_rows jb 0 j src [] g = Inr (0 + n, j + n, src', rows', g1)"
      using convert_rows_result[OF less.prems cv, of 0 j "[]" g]
      unfolding n_def N_def src'_def rows'_def g1_def by simp
    have sd: "same_but_dither g g1" and ok': "source_ok jb src'"
      using convert_rows_ok[OF less.prems, of 0 j "[]" g] rows by auto
    have lr: "length rows' = N"
      unfolding rows'_def by (simp add: length_converted_rows length_job_calls[OF less.prems])
    define p where "p = \<lparr>put_gc = job_gc jb, put_rows = rows',
            put_dest_x = job_X jb + job_dx jb, put_dest_y = job_Y jb + job_dy jb + j,
            put_width = job_w jb, put_height = n\<rparr>"
    define g2 where "g2 = XPutImage jb rows' (job_Y jb + job_dy jb + (j + n) - n) n g1"
    have g2: "puts g2 = puts g @ [p]" "descriptor g2 = descriptor g"
      "converter g2 = converter g" "mono_converter g2 = mono_converter g"
      unfolding g2_def p_def
      using same_but_dither_fields[OF sd] same_but_dither_descriptor[OF sd]
      by (simp_all add: XPutImage_fields)
    have d2: "dith g2 = dith g1" "fl_xmap g2 = fl_xmap g1"
      unfolding g2_def by (rule XPutImage_dith)+
    have step: "put_chunks jb j src g = put_chunks jb (j + n) src' g2"
      unfolding g2_def
      by (subst put_chunks.simps) (simp only: True if_True rows sum.case prod.case add_0)
    have "nat (job_h jb - (j + n)) < nat (job_h jb - j)"
      using n True by auto
    from less.hyps[OF this ok', of g2]
    obtain g' new where rec: "put_chunks jb (j + n) src' g2 = Some (Inr g')"
        "descriptor g' = descriptor g2"
        "converter g' = converter g2" "mono_converter g' = mono_converter g2"
        "puts g' = puts g2 @ new"
        "tiles (j + n) (job_h jb) (row_ranges (job_Y jb + job_dy jb) new)"
        "\<forall>p \<in> set new. put_height p \<le> job_blocking jb \<and> put_width p = job_w jb
                \<and> put_dest_x p = job_X jb + job_dx jb \<and> put_gc p = job_gc jb
                \<and> length (put_rows p) = nat (put_height p)"
        "concat (map put_rows new) =
            converted_rows (job_cf jb) (job_dp jb) (job_pal jb) c
              (job_calls jb (j + n) src' (nat (job_h jb - (j + n)))) g2"
      by blast
    have t: "tiles j (job_h jb) (row_ranges (job_Y jb + job_dy jb) (p # new))"
      using rec(6) n by (simp add: row_ranges_def p_def)
    have a: "\<forall>q \<in> set (p # new). put_height q \<le> job_blocking jb \<and> put_width q = job_w jb
                \<and> put_dest_x q = job_X jb + job_dx jb \<and> put_gc q = job_gc jb
                \<and> length (put_rows q) = nat (put_height q)"
      using rec(7) n lr by (simp add: p_def n_def)
    have split: "nat (job_h jb - j) = N + nat (job_h jb - (j + n))"
      using n unfolding n_def by simp
    have "converted_rows (job_cf jb) (job_dp jb) (job_pal jb) c
              (job_calls jb j src (nat (job_h jb - j))) g
        = rows' @ converted_rows (job_cf jb) (job_dp jb) (job_pal jb) c
              (job_calls jb (j + n) src' (nat (job_h jb - (j + n)))) g1"
      unfolding split job_calls_add converted_rows_append
      by (simp only: rows'_def g1_def src'_def n_def)
    also have "converted_rows (job_cf jb) (job_dp jb) (job_pal jb) c
              (job_calls jb (j + n) src' (nat (job_h jb - (j + n)))) g1
        = converted_rows (job_cf jb) (job_dp jb) (job_pal jb) c
              (job_calls jb (j + n) src' (nat (job_h jb - (j + n)))) g2"
      using d2 by (intro converted_rows_cong) simp_all
    finally have c: "concat (map put_rows (p # new)) =
            converted_rows (job_cf jb) (job_dp jb) (job_pal jb) c
              (job_calls jb j src (nat (job_h jb - j))) g"
      using rec(8) by (simp add: p_def)
    have "puts g' = puts g @ (p # new)"
      using rec(5) g2(1) by simp
    then show ?thesis
      using step rec(1-4) g2(2-4) t a c by (intro exI[of _ g'] exI[of _ "p # new"]) simp
  qed
qed

lemma convert_rows_Inr_same:
  "convert_rows jb k j src rows g = Inr (k', j', src', rows', g') \<Longrightarrow> same_but_dither g g'"
proof (induction jb k j src rows g rule: convert_rows.induct)
  case (1 jb k j src rows g)
  show ?case
  proof (cases "j < job_h jb \<and> k < job_blocking jb")
    case False
    have "convert_rows jb k j src rows g = Inr (k, j, src, rows, g)"
      by (subst convert_rows.simps) (simp only: False simp_thms if_False)
    then show ?thesis
      using "1.prems" by (simp add: same_but_dither_refl)
  next
    case True
    show ?thesis
    proof (cases "convert_row jb j src g")
      case (Inl e)
      have "convert_rows jb k j src rows g = Inl e"
        by (subst convert_rows.simps) (simp only: True simp_thms if_True Inl sum.case)
      then show ?thesis
        using "1.prems" by simp
    next
      case (Inr x)
      obtain row src1 g1 where x: "x = (row, src1, g1)"
        by (cases x)
      have row: "convert_row jb j src g = Inr (row, src1, g1)"
        using Inr x by simp
      have "convert_rows jb k j src rows g = convert_rows jb (k + 1) (j + 1) src1 (rows @ [row]) g1"
        by (subst convert_rows.simps) (simp only: True simp_thms if_True row sum.case prod.case)
      then have "same_but_dither g1 g'"
        using "1.IH"[OF True row refl refl] "1.prems" by simp
      then show ?thesis
        using convert_row_Inr[OF row] same_but_dither_trans by blast
    qed
  qed
qed

lemma put_chunks_descriptor:
  assumes "put_chunks jb j src g = Some y"
  shows "\<forall>g'. y = Inr g' \<longrightarrow> descriptor g' = descriptor g"
proof (rule put_chunks.raw_induct[where P = "\<lambda>jb j src g y. \<forall>g'. y = Inr g' \<longrightarrow> descriptor g' = descriptor g",
        OF _ assms])
  fix pc jb j src g y
  assume IH: "\<And>jb j src g y. pc jb j src g = Some y \<Longrightarrow>
                 \<forall>g'. y = Inr g' \<longrightarrow> descriptor g' = descriptor g"
    and eq: "(if j < job_h jb
              then (case convert_rows jb 0 j src [] g of
                      Inl e \<Rightarrow> Some (Inl e)
                    | Inr (k, j', src', rows, g') \<Rightarrow>
                        pc jb j' src' (XPutImage jb rows (job_Y jb + job_dy jb + j' - k) k g'))
              else Some (Inr g)) = Some y"
  show "\<forall>g'. y = Inr g' \<longrightarrow> descriptor g' = descriptor g"
  proof (cases "j < job_h jb")
    case False
    then show ?thesis
      using eq by auto
  next
    case True
    show ?thesis
    proof (cases "convert_rows jb 0 j src [] g")
      case (Inl e)
      then show ?thesis
        using eq True by auto
    next
      case (Inr x)
      obtain k j' src' rows' g1 where x: "x = (k, j', src', rows', g1)"
        by (cases x)
      have rows: "convert_rows jb 0 j src [] g = Inr (k, j', src', rows', g1)"
        using Inr x by simp
      have "pc jb j' src' (XPutImage jb rows' (job_Y jb + job_dy jb + j' - k) k g1) = Some y"
        using eq True rows by simp
      then have "\<forall>g'. y = Inr g' \<longrightarrow>
          descriptor g' = descriptor (XPutImage jb rows' (job_Y jb + job_dy jb + j' - k) k g1)"
        by (rule IH)
      then show ?thesis
        using same_but_dither_descriptor[OF convert_rows_Inr_same[OF rows]]
        by (simp add: XPutImage_fields)
    qed
  qed
qed

lemma put_chunks_diverges:
  assumes "put_chunks jb j src g = Some y"
  shows "\<not> (job_blocking jb \<le> 0 \<and> j < job_h jb)"
proof (rule put_chunks.raw_induct[where P = "\<lambda>jb j src g y. \<not> (job_blocking jb \<le> 0 \<and> j < job_h jb)",
        OF _ assms])
  fix pc jb j src g y
  assume IH: "\<And>jb j src g y. pc jb j src g = Some y \<Longrightarrow> \<not> (job_blocking jb \<le> 0 \<and> j < job_h jb)"
    and eq: "(if j < job_h jb
              then (case convert_rows jb 0 j src [] g of
                      Inl e \<Rightarrow> Some (Inl e)
                    | Inr (k, j', src', rows, g') \<Rightarrow>
                        pc jb j' src' (XPutImage jb rows (job_Y jb + job_dy jb + j' - k) k g'))
              else Some (Inr g)) = Some y"
  show "\<not> (job_blocking jb \<le> 0 \<and> j < job_h jb)"
  proof
    assume a: "job_blocking jb \<le> 0 \<and> j < job_h jb"
    have rows: "convert_rows jb 0 j src [] g = Inr (0, j, src, [], g)"
      using a by (subst convert_rows.simps) simp
    have "pc jb j src (XPutImage jb [] (job_Y jb + job_dy jb + j - 0) 0 g) = Some y"
      using eq a rows by simp
    then have "\<not> (job_blocking jb \<le> 0 \<and> j < job_h jb)"
      by (rule IH)
    then show False
      using a by simp
  qed
qed

lemma put_chunks_None:
  "job_blocking jb \<le> 0 \<Longrightarrow> j < job_h jb \<Longrightarrow> put_chunks jb j src g = None"
  using put_chunks_diverges[of jb j src g] by (cases "put_chunks jb j src g") auto

lemma length_image_rows:
  assumes "buf \<noteq> None \<or> cb \<noteq> None"
  shows "length (image_rows m buf cb dx dy w h delta linedelta) = nat h"
  using assms
  by (auto simp: image_rows_def length_callback_lines split: option.splits)

lemma general_path_tiles:
  assumes conv: "conv = Some c"
      and src: "buf \<noteq> None \<or> (cb \<noteq> None \<and> 0 \<le> W * delta + (sizeof_STORETYPE cf - 1))"
      and ls: "linesize = ((w * bytes_per_pixel g + scanline_add g) AND scanline_mask g)
                            div sizeof_STORETYPE cf"
      and bl: "blocking = (if linesize * h > MAXBUFFER then c_div MAXBUFFER linesize else h)"
      and blk: "0 < blocking"
      and rng: "fits_int (linesize * h)"
  shows "\<exists>g' new. general_path cf dp pal m buf X Y W delta linedelta cb conv gc1 dx dy w h g
                     = Some (Inr g')
        \<and> descriptor g' = descriptor g
        \<and> converter g' = converter g \<and> mono_converter g' = mono_converter g
        \<and> puts g' = puts g @ new
        \<and> tiles 0 h (row_ranges (Y + dy) new)
        \<and> (\<forall>p \<in> set new. put_height p \<le> blocking \<and> put_width p = w
                \<and> put_dest_x p = X + dx \<and> put_gc p = gc1
                \<and> length (put_rows p) = nat (put_height p))
        \<and> concat (map put_rows new) =
            converted_rows cf dp pal c (image_rows m buf cb dx dy w h delta linedelta) g"
proof -
  define size1 where "size1 = (if linesize * h > MAXBUFFER then MAXBUFFER else linesize * h)"
  define g2 where "g2 = (if size1 > buffer_size g then g\<lparr>buffer_size := size1\<rparr> else g)
       \<lparr>xi_data := Work_buffer, xi_bytes_per_line := linesize * sizeof_STORETYPE cf\<rparr>"
  define jb where "jb = \<lparr>job_cf = cf, job_dp = dp, job_pal = pal, job_mem = m, job_cb = cb,
                job_conv = conv, job_gc = gc1, job_X = X, job_Y = Y, job_dx = dx, job_dy = dy,
                job_w = w, job_h = h, job_delta = delta, job_linedelta = linedelta,
                job_blocking = blocking\<rparr>"
  have g2: "puts g2 = puts g" "descriptor g2 = descriptor g" "converter g2 = converter g"
      "mono_converter g2 = mono_converter g"
    by (simp_all add: g2_def descriptor_def)
  have d2: "dith g2 = dith g" "fl_xmap g2 = fl_xmap g"
    by (simp_all add: g2_def)
  have jbs: "job_h jb = h" "job_blocking jb = blocking" "job_conv jb = conv" "job_w jb = w"
     "job_gc jb = gc1" "job_X jb = X" "job_Y jb = Y" "job_dx jb = dx" "job_dy jb = dy"
     "job_cb jb = cb" "job_cf jb = cf" "job_dp jb = dp" "job_pal jb = pal" "job_mem jb = m"
     "job_delta jb = delta" "job_linedelta jb = linedelta"
    by (simp_all add: jb_def)
  define src0 where "src0 = (case buf of Some b \<Rightarrow> Buffer (b + delta * dx + linedelta * dy)
                              | None \<Rightarrow> Line_buffer (\<lambda>a. 0))"
  have inr: "(\<not> fits_int (linesize * h)) = False"
    using rng by simp
  have gp: "general_path cf dp pal m buf X Y W delta linedelta cb conv gc1 dx dy w h g
      = put_chunks jb 0 src0 g2"
    unfolding general_path_def Let_def ls[symmetric] bl[symmetric]
    using src
    by (cases buf) (simp_all only: inr if_False, simp_all add: jb_def g2_def size1_def src0_def bl ls)
  have ok: "source_ok jb src0"
    using conv src by (cases buf) (simp_all add: source_ok_def jbs src0_def)
  have calls: "job_calls jb 0 src0 (nat h) = image_rows m buf cb dx dy w h delta linedelta"
  proof (cases buf)
    case None
    then obtain f where f: "cb = Some f"
      using src by auto
    show ?thesis
      by (simp add: None f job_calls_def image_rows_def src0_def jbs)
  next
    case (Some b)
    have "b + delta * dx + linedelta * dy + linedelta * int i = b + delta * dx + linedelta * (dy + int i)" for i
      by (simp add: algebra_simps)
    then show ?thesis
      by (simp add: Some job_calls_def image_rows_def src0_def jbs)
  qed
  have cong: "converted_rows cf dp pal c (image_rows m buf cb dx dy w h delta linedelta) g2
            = converted_rows cf dp pal c (image_rows m buf cb dx dy w h delta linedelta) g"
    using d2 by (intro converted_rows_cong) simp_all
  have "0 < job_blocking jb"
    using blk by (simp add: jbs)
  moreover have "job_conv jb = Some c"
    using conv by (simp add: jbs)
  ultimately show ?thesis
    using put_chunks_tiles[OF _ ok, of c 0 g2]
    unfolding gp jbs g2 by (simp add: calls cong)
qed

lemma general_path_descriptor:
  assumes "general_path cf dp pal m buf X Y W delta linedelta cb conv gc1 dx dy w h g = Some (Inr g')"
  shows "descriptor g' = descriptor g"
proof -
  have d: "descriptor ((if s > buffer_size g then g\<lparr>buffer_size := s\<rparr> else g)
       \<lparr>xi_data := Work_buffer, xi_bytes_per_line := l\<rparr>) = descriptor g" for s l
    by (simp add: descriptor_def)
  show ?thesis
    using assms put_chunks_descriptor d
    unfolding general_path_def Let_def
    by (auto split: option.splits if_splits)
qed

lemma and_7_mod: "(k::int) AND 7 = k mod 8"
proof -
  have "k AND mask 3 = take_bit 3 k"
    by (simp only: take_bit_eq_mask)
  then show ?thesis
    by (simp add: mask_eq_exp_minus_1 take_bit_eq_mod)
qed

lemma c_div_8_exact:
  assumes "k AND 7 = 0" and "c_div k 8 = b" and "0 < b"
  shows "k = b * 8"
proof -
  have m: "k mod 8 = 0"
    using assms(1) by (simp add: and_7_mod)
  have "0 < k"
  proof (rule ccontr)
    assume "\<not> 0 < k"
    then have "c_div k 8 \<le> 0"
      by (cases "k = 0") (simp_all add: c_div_def sgn_if)
    then show False
      using assms(2,3) by simp
  qed
  then have "c_div k 8 = k div 8"
    by (simp add: c_div_def)
  then show ?thesis
    using m assms(2) by auto
qed

lemma select_truecolor_fields:
  assumes "select_truecolor cf dp g = Inr g1"
  shows "bytes_per_pixel g1 = bytes_per_pixel g \<and> 2 \<le> bytes_per_pixel g
         \<and> xi_depth g1 = xi_depth g \<and> xi_bits_per_pixel g1 = xi_bits_per_pixel g
         \<and> puts g1 = puts g \<and> dith g1 = dith g \<and> converter g1 \<noteq> None \<and> mono_converter g1 \<noteq> None"
proof -
  have 2: "visual_case_2 cf dp rs gs bs g = Inr g1 \<Longrightarrow>
      bytes_per_pixel g1 = bytes_per_pixel g
         \<and> xi_depth g1 = xi_depth g \<and> xi_bits_per_pixel g1 = xi_bits_per_pixel g
         \<and> puts g1 = puts g \<and> dith g1 = dith g \<and> converter g1 \<noteq> None \<and> mono_converter g1 \<noteq> None"
    for rs gs bs
    unfolding visual_case_2_def Let_def by (auto split: if_splits)
  have 3: "visual_case_3 rs gs bs g = Inr g1 \<Longrightarrow>
      bytes_per_pixel g1 = bytes_per_pixel g
         \<and> xi_depth g1 = xi_depth g \<and> xi_bits_per_pixel g1 = xi_bits_per_pixel g
         \<and> puts g1 = puts g \<and> dith g1 = dith g \<and> converter g1 \<noteq> None \<and> mono_converter g1 \<noteq> None"
    for rs gs bs
    unfolding visual_case_3_def by (auto split: if_splits)
  have 4: "visual_case_4 cf rs gs bs g = Inr g1 \<Longrightarrow>
      bytes_per_pixel g1 = bytes_per_pixel g
         \<and> xi_depth g1 = xi_depth g \<and> xi_bits_per_pixel g1 = xi_bits_per_pixel g
         \<and> puts g1 = puts g \<and> dith g1 = dith g \<and> converter g1 \<noteq> None \<and> mono_converter g1 \<noteq> None"
    for rs gs bs
    unfolding visual_case_4_def by (auto split: if_splits)
  show ?thesis
    using assms 2 3 4 unfolding select_truecolor_def Let_def
    by (auto split: if_splits)
qed

lemma figure_out_visual_fields:
  assumes "figure_out_visual cf dp g = Inr g1"
  shows "bytes_per_pixel g1 \<noteq> 0 \<and> xi_depth g1 = visual_depth dp
         \<and> xi_bits_per_pixel g1 = bytes_per_pixel g1 * 8
         \<and> puts g1 = puts g \<and> dith g1 = dith g \<and> converter g1 \<noteq> None \<and> mono_converter g1 \<noteq> None"
proof -
  define b where "b = (if pfv_bits_per_pixel dp AND 7 \<noteq> 0 then 0 else c_div (pfv_bits_per_pixel dp) 8)"
  define n0 where "n0 = c_div (pfv_scanline_pad dp) 8"
  define n where "n = (if n0 < sizeof_STORETYPE cf then sizeof_STORETYPE cf else n0)"
  define g3 where "g3 = g\<lparr>xi_format := ZPixmap, xi_byte_order := ImageByteOrder dp,
                  xi_depth := visual_depth dp, xi_bits_per_pixel := pfv_bits_per_pixel dp,
                  bytes_per_pixel := b, scanline_add := n - 1, scanline_mask := - n\<rparr>"
  have g3: "bytes_per_pixel g3 = b" "xi_depth g3 = visual_depth dp"
      "xi_bits_per_pixel g3 = pfv_bits_per_pixel dp" "puts g3 = puts g" "dith g3 = dith g"
    by (simp_all add: g3_def)
  have fov: "figure_out_visual cf dp g =
      (if pfv_scanline_pad dp AND 7 \<noteq> 0 \<or> n0 AND (n0 - 1) \<noteq> 0
         then Inl (Fatal_scanline_pad (pfv_scanline_pad dp))
         else if USE_COLORMAP cf \<and> b = 1
               then Inr (g3\<lparr>converter := Some Color8, mono_converter := Some Mono8\<rparr>)
               else if USE_COLORMAP cf \<and> visual_red_mask dp = 0
               then Inl (Fatal_colormap (pfv_bits_per_pixel dp))
               else select_truecolor cf dp g3)"
    unfolding figure_out_visual_def Let_def g3_def b_def n_def n0_def by simp
  have bits: "0 < b \<Longrightarrow> pfv_bits_per_pixel dp = b * 8"
  proof -
    assume p: "0 < b"
    then have "pfv_bits_per_pixel dp AND 7 = 0" "c_div (pfv_bits_per_pixel dp) 8 = b"
      unfolding b_def by (auto split: if_splits)
    then show ?thesis
      using p by (rule c_div_8_exact)
  qed
  show ?thesis
  proof (cases "pfv_scanline_pad dp AND 7 \<noteq> 0 \<or> n0 AND (n0 - 1) \<noteq> 0")
    case True
    have "figure_out_visual cf dp g = Inl (Fatal_scanline_pad (pfv_scanline_pad dp))"
      unfolding fov using True by simp
    then show ?thesis
      using assms by simp
  next
    case pad: False
    show ?thesis
    proof (cases "USE_COLORMAP cf \<and> b = 1")
      case True
      have "figure_out_visual cf dp g = Inr (g3\<lparr>converter := Some Color8, mono_converter := Some Mono8\<rparr>)"
        unfolding fov using pad True by simp
      then have g1: "g1 = g3\<lparr>converter := Some Color8, mono_converter := Some Mono8\<rparr>"
        using assms by simp
      have "0 < b"
        using True by simp
      then show ?thesis
        unfolding g1 using bits g3 True by simp
    next
      case cm: False
      show ?thesis
      proof (cases "USE_COLORMAP cf \<and> visual_red_mask dp = 0")
        case True
        have "figure_out_visual cf dp g = Inl (Fatal_colormap (pfv_bits_per_pixel dp))"
          unfolding fov using pad cm True by simp
        then show ?thesis
          using assms by simp
      next
        case False
        have "figure_out_visual cf dp g = select_truecolor cf dp g3"
          unfolding fov using pad cm False by (simp only: simp_thms if_False)
        then have tc: "select_truecolor cf dp g3 = Inr g1"
          using assms by simp
        note f = select_truecolor_fields[OF tc]
        have "0 < b"
          using f g3(1) by simp
        then show ?thesis
          using f bits g3 by simp
      qed
    qed
  qed
qed

lemma ensure_visual_fields:
  assumes "ensure_visual cf dp g = Inr g1"
  shows "bytes_per_pixel g1 \<noteq> 0" "puts g1 = puts g" "dith g1 = dith g"
    and "bytes_per_pixel g \<noteq> 0 \<Longrightarrow> g1 = g"
    and "bytes_per_pixel g = 0 \<Longrightarrow> xi_depth g1 = visual_depth dp
           \<and> xi_bits_per_pixel g1 = bytes_per_pixel g1 * 8"
  using assms figure_out_visual_fields[of cf dp g g1]
  by (auto simp: ensure_visual_def split: if_splits)

lemma innards_empty:
  assumes "fl_clip_box X Y W H = (cx, cy, w, h)" and "w \<le> 0 \<or> h \<le> 0"
  shows "innards cf dp pal fl_clip_box m buf X Y W H delta linedelta0 mono_flag cb alpha gc0 g
           = Some (Inr g)"
  unfolding innards_def Let_def using assms by simp

lemma innards_unfold:
  assumes clip: "fl_clip_box X Y W H = (cx, cy, w, h)" and pos: "0 < w" "0 < h"
      and ev: "ensure_visual cf dp g0 = Inr g1"
      and ld: "linedelta = (if linedelta0 = 0 then W * \<bar>delta\<bar> else linedelta0)"
      and g3: "g3 = (if alpha then alpha_override dp (g1\<lparr>xi_width := w, xi_height := h\<rparr>)
                     else g1\<lparr>xi_width := w, xi_height := h\<rparr>)"
      and conv: "conv = chosen_converter g1 mono_flag alpha"
      and gc1: "gc1 = (if alpha \<and> visual_depth dp \<noteq> 32 then Gc32 else gc0)"
  shows "innards cf dp pal fl_clip_box m buf X Y W H delta linedelta0 mono_flag cb alpha gc0 g0 =
     (case (case buf of
              Some b \<Rightarrow>
                if conv = Some Rgb \<and> delta = 3 \<and> (linedelta AND scanline_add g3) = 0
                then Some (Inr (g3\<lparr>xi_data := Source_at (b + delta * (cx - X) + linedelta * (cy - Y)),
                                    xi_bytes_per_line := linedelta\<rparr>))
                else general_path cf dp pal m buf X Y W delta linedelta cb conv gc1
                       (cx - X) (cy - Y) w h g3
            | None \<Rightarrow>
                general_path cf dp pal m buf X Y W delta linedelta cb conv gc1
                  (cx - X) (cy - Y) w h g3) of
        None \<Rightarrow> None
      | Some (Inl e) \<Rightarrow> Some (Inl e)
      | Some (Inr g4) \<Rightarrow>
          Some (Inr (if alpha then alpha_restore dp (bytes_per_pixel g1) g4 else g4)))"
proof -
  have c: "chosen_converter (g1\<lparr>xi_width := w, xi_height := h\<rparr>) mono_flag alpha
             = chosen_converter g1 mono_flag alpha"
    by (simp add: chosen_converter_def)
  have n: "\<not> (w \<le> 0 \<or> h \<le> 0)"
    using pos by simp
  show ?thesis
    unfolding innards_def Let_def clip prod.case ev sum.case c
    unfolding ld[symmetric] conv[symmetric] gc1[symmetric] g3[symmetric]
    by (simp only: n if_False)
qed

lemma alpha_fields:
  "puts (alpha_restore dp b g) = puts g"
  "descriptor (alpha_restore dp b g) = (b, visual_depth dp, b * 8)"
  "puts (alpha_override dp g) = puts g"
  "scanline_add (alpha_override dp g) = scanline_add g"
  "scanline_mask (alpha_override dp g) = scanline_mask g"
  "bytes_per_pixel (alpha_override dp g) = 4"
  by (simp_all add: alpha_restore_def alpha_override_def descriptor_def)

lemma innards_general_path:
  assumes ev: "ensure_visual cf dp g0 = Inr g1"
      and clip: "fl_clip_box X Y W H = (cx, cy, w, h)" "0 < w" "0 < h"
      and conv: "chosen_converter g1 mono_flag alpha = Some c"
      and general: "buf = None \<or> c \<noteq> Rgb \<or> delta \<noteq> 3 \<or>
                    ((if linedelta0 = 0 then W * \<bar>delta\<bar> else linedelta0) AND scanline_add g1) \<noteq> 0"
      and src: "buf \<noteq> None \<or> (cb \<noteq> None \<and> 0 \<le> W * delta + (sizeof_STORETYPE cf - 1))"
      and ls: "linesize = ((w * (if alpha then 4 else bytes_per_pixel g1) + scanline_add g1)
                             AND scanline_mask g1) div sizeof_STORETYPE cf"
      and bl: "blocking = (if linesize * h > MAXBUFFER then c_div MAXBUFFER linesize else h)"
      and blk: "0 < blocking"
      and rng: "fits_int (linesize * h)"
  shows "\<exists>g' new. innards cf dp pal fl_clip_box m buf X Y W H delta linedelta0 mono_flag cb alpha gc0 g0
                     = Some (Inr g')
           \<and> puts g' = puts g0 @ new
           \<and> tiles 0 h (row_ranges cy new)
           \<and> (\<forall>p \<in> set new. put_height p \<le> blocking \<and> put_width p = w \<and> put_dest_x p = cx
                  \<and> put_gc p = (if alpha \<and> visual_depth dp \<noteq> 32 then Gc32 else gc0)
                  \<and> length (put_rows p) = nat (put_height p))
           \<and> concat (map put_rows new) =
               converted_rows cf dp pal c
                 (image_rows m buf cb (cx - X) (cy - Y) w h delta
                    (if linedelta0 = 0 then W * \<bar>delta\<bar> else linedelta0)) g1"
proof -
  define linedelta where "linedelta = (if linedelta0 = 0 then W * \<bar>delta\<bar> else linedelta0)"
  define g3 where "g3 = (if alpha then alpha_override dp (g1\<lparr>xi_width := w, xi_height := h\<rparr>)
                     else g1\<lparr>xi_width := w, xi_height := h\<rparr>)"
  define gc1 where "gc1 = (if alpha \<and> visual_depth dp \<noteq> 32 then Gc32 else gc0)"
  have g3: "puts g3 = puts g1" "scanline_add g3 = scanline_add g1" "scanline_mask g3 = scanline_mask g1"
      "bytes_per_pixel g3 = (if alpha then 4 else bytes_per_pixel g1)"
    by (simp_all add: g3_def alpha_fields)
  have d3: "dith g3 = dith g1" "fl_xmap g3 = fl_xmap g1"
    by (simp_all add: g3_def alpha_override_def)
  have ls3: "linesize = ((w * bytes_per_pixel g3 + scanline_add g3) AND scanline_mask g3)
                            div sizeof_STORETYPE cf"
    unfolding g3 by (rule ls)
  obtain g4 new where gp:
      "general_path cf dp pal m buf X Y W delta linedelta cb (Some c) gc1 (cx - X) (cy - Y) w h g3
         = Some (Inr g4)"
      "puts g4 = puts g3 @ new"
      "tiles 0 h (row_ranges (Y + (cy - Y)) new)"
      "\<forall>p \<in> set new. put_height p \<le> blocking \<and> put_width p = w
                \<and> put_dest_x p = X + (cx - X) \<and> put_gc p = gc1
                \<and> length (put_rows p) = nat (put_height p)"
      "concat (map put_rows new) =
            converted_rows cf dp pal c
              (image_rows m buf cb (cx - X) (cy - Y) w h delta linedelta) g3"
    using general_path_tiles[where dp = dp and pal = pal and m = m and X = X and Y = Y
            and linedelta = linedelta and dx = "cx - X" and dy = "cy - Y",
            OF refl src ls3 bl blk rng]
    by blast
  have cong: "converted_rows cf dp pal c
              (image_rows m buf cb (cx - X) (cy - Y) w h delta linedelta) g3
        = converted_rows cf dp pal c
              (image_rows m buf cb (cx - X) (cy - Y) w h delta linedelta) g1"
    using d3 by (intro converted_rows_cong) simp_all
  have nf: "\<not> (Some c = Some Rgb \<and> delta = 3 \<and> (linedelta AND scanline_add g3) = 0)"
      if "buf \<noteq> None"
    using general that unfolding g3 linedelta_def by auto
  note iu = innards_unfold[where fl_clip_box = fl_clip_box and X = X and Y = Y and W = W and H = H,
                OF clip ev linedelta_def g3_def conv[symmetric] gc1_def]
  have "innards cf dp pal fl_clip_box m buf X Y W H delta linedelta0 mono_flag cb alpha gc0 g0
      = Some (Inr (if alpha then alpha_restore dp (bytes_per_pixel g1) g4 else g4))"
  proof (cases buf)
    case None
    show ?thesis
      unfolding iu using gp(1) by (simp add: None)
  next
    case (Some b)
    have "\<not> (Some c = Some Rgb \<and> delta = 3 \<and> (linedelta AND scanline_add g3) = 0)"
      using nf Some by simp
    then show ?thesis
      unfolding iu Some option.case using gp(1)[unfolded Some] by (simp only: if_False) simp
  qed
  moreover have "puts (if alpha then alpha_restore dp (bytes_per_pixel g1) g4 else g4) = puts g0 @ new"
    using gp(2) g3(1) ensure_visual_fields(2)[OF ev] by (simp add: alpha_fields)
  ultimately show ?thesis
    using gp(3,4) gp(5)[unfolded cong] unfolding gc1_def linedelta_def by auto
qed

lemma tiles_more_than_one:
  assumes "tiles j h rs" and "\<forall>r \<in> set rs. snd r \<le> b" and "j + b < h" and "0 \<le> b"
  shows "1 < length rs"
proof (cases rs)
  case Nil
  then show ?thesis
    using assms by simp
next
  case (Cons r rs')
  obtain s k where r: "r = (s, k)"
    by (cases r)
  show ?thesis
  proof (cases rs')
    case Nil
    then show ?thesis
      using assms Cons r by simp
  next
    case (Cons a list)
    then show ?thesis
      using \<open>rs = r # rs'\<close> by simp
  qed
qed

lemma capacity_exceeded:
  fixes l h :: int
  assumes "0 < l" and "MAXBUFFER div l < h"
  shows "MAXBUFFER < l * h"
proof -
  have "MAXBUFFER div l + 1 \<le> h"
    using assms(2) by simp
  then have "l * (MAXBUFFER div l + 1) \<le> l * h"
    using assms(1) by (intro mult_left_mono) simp_all
  then have a: "l * (MAXBUFFER div l) + l \<le> l * h"
    by (simp add: algebra_simps)
  have b: "l * (MAXBUFFER div l) + MAXBUFFER mod l = MAXBUFFER"
    by (rule mult_div_mod_eq)
  have c: "MAXBUFFER mod l < l"
    using assms(1) by simp
  show ?thesis
    using a b c by linarith
qed

text \<open>
  Claim C7 (as amended).  On the conversion path of the engine (the source is not
  handed to the server directly), with a converter selected, a pixel source present
  (a buffer, or a callback with a positive stride and a clipped width no larger than
  the requested width, so that the line buffer holds a clipped line), a destination
  line that fits the working buffer (line size positive and at most \<open>MAXBUFFER\<close>, so
  that the row capacity \<open>MAXBUFFER div linesize\<close> is at least 1), and every argument
  and every \<^verbatim>\<open>int\<close> value that the call computes from them, the buffer size
  \<open>linesize * h\<close> among them, within the range of \<^verbatim>\<open>int\<close>: for every clipped image of
  height \<open>h\<close> greater than the row capacity the call returns having sent more than one
  request; their row ranges follow one another without gap or overlap, start at row 0
  and end at row \<open>h\<close>; each transfers at most the row capacity, at the clipped left
  edge, at the line of its first row below the clipped top, at the clipped width; and
  the rows a request carries are exactly the rows of its range, out of the \<open>h\<close> rows
  obtained by converting the source rows \<open>0, ..., h - 1\<close> of the clipped image in
  this order.
\<close>

theorem chunked_blits_tile_rows:
  assumes ev: "ensure_visual cf dp g0 = Inr g1"
      and clip: "fl_clip_box X Y W H = (cx, cy, w, h)" "0 < w" "0 < h"
      and conv: "chosen_converter g1 mono_flag alpha = Some c"
      and ld: "linedelta = (if linedelta0 = 0 then W * \<bar>delta\<bar> else linedelta0)"
      and general: "buf = None \<or> c \<noteq> Rgb \<or> delta \<noteq> 3 \<or> (linedelta AND scanline_add g1) \<noteq> 0"
      and src: "buf \<noteq> None \<or> (cb \<noteq> None \<and> 0 < delta \<and> w \<le> W)"
      and ls: "linesize = ((w * (if alpha then 4 else bytes_per_pixel g1) + scanline_add g1)
                             AND scanline_mask g1) div sizeof_STORETYPE cf"
      and cap: "0 < linesize" "linesize \<le> MAXBUFFER"
      and tall: "MAXBUFFER div linesize < h"
      and arith: "\<forall>v \<in> set [X, Y, W, H, delta, \<bar>delta\<bar>, linedelta, cx, cy, w, h,
                     W * \<bar>delta\<bar>, cx - X, cy - Y, delta * (cx - X), linedelta * (cy - Y),
                     delta * (cx - X) + linedelta * (cy - Y), W * delta, (w - 1) * delta,
                     w * (if alpha then 4 else bytes_per_pixel g1) + scanline_add g1,
                     linesize * h, cx + w, cy + h]. fits_int v"
      and all: "rows = converted_rows cf dp pal c
                         (image_rows m buf cb (cx - X) (cy - Y) w h delta linedelta) g1"
  shows "\<exists>g' new. innards cf dp pal fl_clip_box m buf X Y W H delta linedelta0 mono_flag cb alpha gc0 g0
                     = Some (Inr g')
           \<and> puts g' = puts g0 @ new
           \<and> 1 < length new
           \<and> tiles 0 h (row_ranges cy new)
           \<and> length rows = nat h
           \<and> (\<forall>p \<in> set new. put_height p \<le> MAXBUFFER div linesize \<and> put_width p = w
                  \<and> put_dest_x p = cx
                  \<and> put_rows p = take (nat (put_height p)) (drop (nat (put_dest_y p - cy)) rows))"
proof -
  have big: "MAXBUFFER < linesize * h"
    using cap(1) tall by (rule capacity_exceeded)
  have cd: "c_div MAXBUFFER linesize = MAXBUFFER div linesize"
    using cap(1) by (simp add: c_div_def MAXBUFFER_def)
  have bl: "MAXBUFFER div linesize = (if linesize * h > MAXBUFFER then c_div MAXBUFFER linesize else h)"
    using big cd by simp
  have blk: "0 < MAXBUFFER div linesize"
    using cap by (simp add: pos_imp_zdiv_pos_iff)
  have rng: "fits_int (linesize * h)"
    using arith by simp
  have general': "buf = None \<or> c \<noteq> Rgb \<or> delta \<noteq> 3 \<or>
                    ((if linedelta0 = 0 then W * \<bar>delta\<bar> else linedelta0) AND scanline_add g1) \<noteq> 0"
    using general unfolding ld .
  have src': "buf \<noteq> None \<or> (cb \<noteq> None \<and> 0 \<le> W * delta + (sizeof_STORETYPE cf - 1))"
  proof (cases "buf \<noteq> None")
    case True
    then show ?thesis by simp
  next
    case False
    then have f: "cb \<noteq> None" "0 < delta" "0 < W"
      using src clip(2) by auto
    have "0 \<le> W * delta"
      using f by simp
    moreover have "0 \<le> sizeof_STORETYPE cf - 1"
      by (simp add: sizeof_STORETYPE_def)
    ultimately show ?thesis
      using f(1) by simp
  qed
  obtain g' new where r:
      "innards cf dp pal fl_clip_box m buf X Y W H delta linedelta0 mono_flag cb alpha gc0 g0
         = Some (Inr g')"
      "puts g' = puts g0 @ new"
      "tiles 0 h (row_ranges cy new)"
      "\<forall>p \<in> set new. put_height p \<le> MAXBUFFER div linesize \<and> put_width p = w \<and> put_dest_x p = cx
                  \<and> put_gc p = (if alpha \<and> visual_depth dp \<noteq> 32 then Gc32 else gc0)
                  \<and> length (put_rows p) = nat (put_height p)"
      "concat (map put_rows new) = rows"
    using innards_general_path[where fl_clip_box = fl_clip_box and X = X and Y = Y and W = W and H = H,
            OF ev clip conv general' src' ls bl blk rng] unfolding all ld by blast
  have "\<forall>r \<in> set (row_ranges cy new). snd r \<le> MAXBUFFER div linesize"
    using r(4) by (auto simp: row_ranges_def)
  then have "1 < length (row_ranges cy new)"
    using tiles_more_than_one[OF r(3), of "MAXBUFFER div linesize"] tall blk by simp
  then have n: "1 < length new"
    by (simp add: row_ranges_def)
  have lens: "\<forall>p \<in> set new. length (put_rows p) = nat (put_height p)"
    using r(4) by blast
  have each: "put_rows p = take (nat (put_height p)) (drop (nat (put_dest_y p - cy)) rows)"
    if "p \<in> set new" for p
    using rows_of_request[OF r(3) lens that] unfolding r(5) by simp
  have "buf \<noteq> None \<or> cb \<noteq> None"
    using src by blast
  then have len: "length rows = nat h"
    unfolding all by (simp add: length_converted_rows length_image_rows)
  show ?thesis
    using r(1,2,3) n len r(4) each by blast
qed

lemma ensure_visual_565_initial:
  "ensure_visual example_config display_565 initial_globals =
     Inr (initial_globals\<lparr>xi_format := ZPixmap, xi_byte_order := 0,
            xi_depth := 16, xi_bits_per_pixel := 16, bytes_per_pixel := 2,
            scanline_add := 7, scanline_mask := - 8,
            converter := Some C565, mono_converter := Some M565\<rparr>)"
  using figure_out_visual_565[of display_565 example_config initial_globals]
  by (simp add: ensure_visual_def initial_globals_def display_565_def example_config_def
      sizeof_STORETYPE_def WORDS_BIGENDIAN_int_def)

lemma ensure_visual_rgb24_initial:
  "ensure_visual example_config display_rgb24 initial_globals =
     Inr (initial_globals\<lparr>xi_format := ZPixmap, xi_byte_order := 0,
            xi_depth := 24, xi_bits_per_pixel := 24, bytes_per_pixel := 3,
            scanline_add := 7, scanline_mask := - 8,
            converter := Some Rgb, mono_converter := Some Rrr\<rparr>)"
proof -
  have a: "(24::int) AND 7 = 0" "c_div 24 8 = 3" "c_div 32 8 = 4" "(32::int) AND 7 = 0"
    "(4::int) AND 3 = 0"
    by (simp_all add: c_div_def)
  show ?thesis
    unfolding ensure_visual_def figure_out_visual_def Let_def
    by (simp add: initial_globals_def display_rgb24_def example_config_def a
        sizeof_STORETYPE_def select_truecolor_def visual_case_3_def)
qed

theorem chunked_blits_tile_rows_witness:
  "\<exists>g' new. innards example_config display_565 example_palette no_clip (\<lambda>a. 0) (Some 0)
               0 0 100000 25 3 0 0 None False (Gc 0) initial_globals = Some (Inr g')
      \<and> puts g' = puts initial_globals @ new
      \<and> 1 < length new
      \<and> tiles 0 25 (row_ranges 0 new)
      \<and> length (converted_rows example_config display_565 example_palette C565
                  (image_rows (\<lambda>a. 0) (Some 0) None 0 0 100000 25 3 300000) globals_565) = 25
      \<and> (\<forall>p \<in> set new. put_height p \<le> MAXBUFFER div 25000 \<and> put_width p = 100000
             \<and> put_dest_x p = 0
             \<and> put_rows p = take (nat (put_height p)) (drop (nat (put_dest_y p))
                  (converted_rows example_config display_565 example_palette C565
                     (image_rows (\<lambda>a. 0) (Some 0) None 0 0 100000 25 3 300000) globals_565)))"
proof -
  have ev: "ensure_visual example_config display_565 initial_globals = Inr globals_565"
    unfolding globals_565_def by (rule ensure_visual_565_initial)
  have clip: "no_clip 0 0 100000 25 = (0, 0, 100000, 25)" "(0::int) < 100000" "(0::int) < 25"
    by (simp_all add: no_clip_def)
  have conv: "chosen_converter globals_565 0 False = Some C565"
    by (simp add: chosen_converter_def globals_565_def)
  have ld: "(300000::int) = (if (0::int) = 0 then 100000 * \<bar>3\<bar> else 0)"
    by simp
  have general: "Some (0::int) = None \<or> C565 \<noteq> Rgb \<or> (3::int) \<noteq> 3 \<or>
       (300000 AND scanline_add globals_565) \<noteq> 0"
    by simp
  have src: "Some (0::int) \<noteq> None \<or>
      ((None :: Fl_Draw_Image_Cb option) \<noteq> None \<and> (0::int) < 3 \<and> (100000::int) \<le> 100000)"
    by simp
  have ls: "25000 = ((100000 * (if False then 4 else bytes_per_pixel globals_565) + scanline_add globals_565)
                             AND scanline_mask globals_565) div sizeof_STORETYPE example_config"
    by (simp add: globals_565_def initial_globals_def sizeof_STORETYPE_def example_config_def)
  have cap: "(0::int) < 25000" "25000 \<le> MAXBUFFER" "MAXBUFFER div 25000 < 25"
    by (simp_all add: MAXBUFFER_def)
  have arith: "\<forall>v \<in> set [0, 0, 100000, 25, 3, \<bar>3\<bar>, 300000, 0, 0, 100000, 25,
                     100000 * \<bar>3\<bar>, 0 - 0, 0 - 0, 3 * (0 - 0), 300000 * (0 - 0),
                     3 * (0 - 0) + 300000 * (0 - 0), 100000 * 3, (100000 - 1) * 3,
                     100000 * (if False then 4 else bytes_per_pixel globals_565)
                       + scanline_add globals_565,
                     25000 * 25, 0 + 100000, 0 + 25]. fits_int v"
    by (simp add: fits_int_def INT_MAX_def globals_565_def initial_globals_def)
  show ?thesis
    using chunked_blits_tile_rows[where fl_clip_box = no_clip and X = 0 and Y = 0 and W = 100000
            and H = 25 and pal = example_palette and m = "\<lambda>a. 0",
            OF ev clip conv ld general src ls cap arith refl]
    by simp
qed

lemma fast_path_no_put:
  assumes "0 < H"
  shows "\<exists>g'. innards example_config display_rgb24 example_palette no_clip m (Some 0)
                0 0 8 H 3 0 0 None False (Gc 0) initial_globals = Some (Inr g')
           \<and> puts g' = [] \<and> xi_data g' = Source_at 0 \<and> xi_bytes_per_line g' = 24"
proof -
  have clip: "no_clip 0 0 8 H = (0, 0, 8, H)" "(0::int) < 8" "0 < H"
    using assms by (simp_all add: no_clip_def)
  have ld: "(24::int) = (if (0::int) = 0 then 8 * \<bar>3\<bar> else 0)"
    by simp
  have conv: "Some Rgb = chosen_converter globals_rgb24 0 False"
    by (simp add: chosen_converter_def globals_rgb24_def)
  have a: "(24::int) AND 7 = 0"
    by simp
  show ?thesis
    unfolding innards_unfold[where fl_clip_box = no_clip and X = 0 and Y = 0 and W = 8 and H = H,
        OF clip ensure_visual_rgb24_initial[folded globals_rgb24_def] ld refl conv refl]
    by (simp add: globals_rgb24_def initial_globals_def a)
qed

lemma zero_capacity_never_returns:
  "innards example_config display_565 example_palette no_clip m (Some 0)
        0 0 1200000 1 3 0 0 None False (Gc 0) initial_globals = None"
proof -
  have clip: "no_clip 0 0 1200000 1 = (0, 0, 1200000, 1)" "(0::int) < 1200000" "(0::int) < 1"
    by (simp_all add: no_clip_def)
  have ld: "(3600000::int) = (if (0::int) = 0 then 1200000 * \<bar>3\<bar> else 0)"
    by simp
  have conv: "Some C565 = chosen_converter globals_565 0 False"
    by (simp add: chosen_converter_def globals_565_def)
  have a: "((2400007::int) AND - 8) div 8 = 300000" "c_div 262144 300000 = 0"
    by (simp_all add: c_div_def)
  have gp: "general_path example_config display_565 example_palette m (Some 0) 0 0 1200000 3 3600000
      None (Some C565) (Gc 0) 0 0 1200000 1 (globals_565\<lparr>xi_width := 1200000, xi_height := 1\<rparr>) = None"
    unfolding general_path_def Let_def
    by (simp add: globals_565_def initial_globals_def sizeof_STORETYPE_def example_config_def a MAXBUFFER_def
        INT_MAX_def fits_int_def put_chunks_None)
  show ?thesis
    unfolding innards_unfold[where fl_clip_box = no_clip and X = 0 and Y = 0 and W = 1200000 and H = 1,
        OF clip ensure_visual_565_initial[folded globals_565_def] ld refl conv refl]
    by (simp add: gp)
qed

lemma size_overflow_fails:
  "innards example_config display_565 example_palette no_clip m (Some 0)
        0 0 100000 90000 3 0 0 None False (Gc 0) initial_globals = Some (Inl Int_overflow)"
proof -
  have clip: "no_clip 0 0 100000 90000 = (0, 0, 100000, 90000)" "(0::int) < 100000" "(0::int) < 90000"
    by (simp_all add: no_clip_def)
  have ld: "(300000::int) = (if (0::int) = 0 then 100000 * \<bar>3\<bar> else 0)"
    by simp
  have conv: "Some C565 = chosen_converter globals_565 0 False"
    by (simp add: chosen_converter_def globals_565_def)
  have a: "((200007::int) AND - 8) div 8 = 25000"
    by simp
  have gp: "general_path example_config display_565 example_palette m (Some 0) 0 0 100000 3 300000
      None (Some C565) (Gc 0) 0 0 100000 90000 (globals_565\<lparr>xi_width := 100000, xi_height := 90000\<rparr>)
        = Some (Inl Int_overflow)"
    unfolding general_path_def Let_def
    by (simp add: globals_565_def initial_globals_def sizeof_STORETYPE_def example_config_def a
        INT_MAX_def fits_int_def)
  show ?thesis
    unfolding innards_unfold[where fl_clip_box = no_clip and X = 0 and Y = 0 and W = 100000 and H = 90000,
        OF clip ensure_visual_565_initial[folded globals_565_def] ld refl conv refl]
    by (simp add: gp)
qed

lemma null_source_calls_null:
  "innards example_config display_565 example_palette no_clip m None
        0 0 10 1 1 0 1 None False (Gc 0) initial_globals = Some (Inl Null_call)"
proof -
  have clip: "no_clip 0 0 10 1 = (0, 0, 10, 1)" "(0::int) < 10" "(0::int) < 1"
    by (simp_all add: no_clip_def)
  have ld: "(10::int) = (if (0::int) = 0 then 10 * \<bar>1\<bar> else 0)"
    by simp
  have conv: "Some M565 = chosen_converter globals_565 1 False"
    by (simp add: chosen_converter_def globals_565_def)
  have a: "((27::int) AND - 8) div 8 = 3"
    by simp
  have gp: "general_path example_config display_565 example_palette m None 0 0 10 1 10
      None (Some M565) (Gc 0) 0 0 10 1 (globals_565\<lparr>xi_width := 10, xi_height := 1\<rparr>) = Some (Inl Null_call)"
    unfolding general_path_def Let_def
    apply (simp add: globals_565_def initial_globals_def sizeof_STORETYPE_def example_config_def a MAXBUFFER_def
        INT_MAX_def fits_int_def)
    apply (subst put_chunks.simps)
    apply (subst convert_rows.simps)
    apply (simp add: convert_row_def)
    done
  show ?thesis
    unfolding innards_unfold[where fl_clip_box = no_clip and X = 0 and Y = 0 and W = 10 and H = 1,
        OF clip ensure_visual_565_initial[folded globals_565_def] ld refl conv refl]
    by (simp add: gp)
qed

text \<open>
  Claim C6 (as amended).  A call of the streaming engine whose rectangle has an empty
  visible part (clipped width or height not positive) returns with the shared state
  exactly as it was: no conversion, no request to the server, no change to any
  static.  A request of zero (or negative) width or height has an empty visible
  part under both clip services modelled here (no clip region, one clip rectangle).
  This holds whatever the pixel source, also for a null source with no callback;
  for a non-empty visible part nothing is said about that source.
\<close>

theorem empty_region_is_noop:
  "(fl_clip_box X Y W H = (cx, cy, w, h) \<and> (w \<le> 0 \<or> h \<le> 0) \<longrightarrow>
      innards cf dp pal fl_clip_box m buf X Y W H delta linedelta mono_flag cb alpha gc0 g
        = Some (Inr g))
   \<and> (W \<le> 0 \<or> H \<le> 0 \<longrightarrow>
      innards cf dp pal no_clip m buf X Y W H delta linedelta mono_flag cb alpha gc0 g
        = Some (Inr g)
      \<and> innards cf dp pal (clip_to r) m buf X Y W H delta linedelta mono_flag cb alpha gc0 g
        = Some (Inr g))"
proof -
  have 1: "innards cf dp pal fl_clip_box m buf X Y W H delta linedelta mono_flag cb alpha gc0 g
        = Some (Inr g)"
    if "fl_clip_box X Y W H = (cx, cy, w, h)" "w \<le> 0 \<or> h \<le> 0"
    for fl_clip_box cx cy w h
    using that by (rule innards_empty)
  have 2: "innards cf dp pal no_clip m buf X Y W H delta linedelta mono_flag cb alpha gc0 g
        = Some (Inr g)" if "W \<le> 0 \<or> H \<le> 0"
    using that by (intro 1[of no_clip X Y W H]) (simp_all add: no_clip_def)
  obtain rx ry rw rh where r: "r = (rx, ry, rw, rh)"
    by (cases r)
  obtain cx' cy' w' h' where c: "clip_to r X Y W H = (cx', cy', w', h')"
    by (cases "clip_to r X Y W H")
  have "w' \<le> 0 \<or> h' \<le> 0" if "W \<le> 0 \<or> H \<le> 0"
    using c that unfolding r clip_to_def Let_def
    by (auto split: if_splits)
  then have 3: "innards cf dp pal (clip_to r) m buf X Y W H delta linedelta mono_flag cb alpha gc0 g
        = Some (Inr g)" if "W \<le> 0 \<or> H \<le> 0"
    using that c by (intro 1[of "clip_to r" cx' cy' w' h']) simp_all
  show ?thesis
    using 1 2 3 by blast
qed

theorem empty_region_is_noop_witness:
  "clip_to (0, 0, 100, 100) 200 10 50 50 = (200, 10, 0, 0) \<and> ((0::int) \<le> 0 \<or> (0::int) \<le> 0)
   \<and> innards example_config display_565 example_palette (clip_to (0, 0, 100, 100)) (\<lambda>a. 0) None
        200 10 50 50 3 0 0 None False (Gc 0) initial_globals = Some (Inr initial_globals)
   \<and> innards example_config display_565 example_palette no_clip (\<lambda>a. 0) (Some 0)
        0 0 0 7 3 0 0 None False (Gc 0) initial_globals = Some (Inr initial_globals)"
proof -
  have c: "clip_to (0, 0, 100, 100) 200 10 50 50 = (200, 10, 0, 0)"
    by (simp add: clip_to_def)
  show ?thesis
    using c
      empty_region_is_noop[of "clip_to (0, 0, 100, 100)" 200 10 50 50 200 10 0 0
        example_config display_565 example_palette "\<lambda>a. 0" None 3 0 0 None False "Gc 0" initial_globals]
      empty_region_is_noop[of no_clip 0 0 0 7 0 0 0 7
        example_config display_565 example_palette "\<lambda>a. 0" "Some 0" 3 0 0 None False "Gc 0" initial_globals]
    by simp
qed

theorem null_source_is_not_noop:
  "innards example_config display_565 example_palette no_clip (\<lambda>a. 0) None
        0 0 10 1 1 0 1 None False (Gc 0) initial_globals = Some (Inl Null_call)
   \<and> innards example_config display_565 example_palette no_clip (\<lambda>a. 0) None
        0 0 10 1 1 0 1 None False (Gc 0) initial_globals \<noteq> Some (Inr initial_globals)"
  using null_source_calls_null[of "\<lambda>a. 0"] by simp

theorem unchunked_cases:
  "map_option (map_sum id puts)
     (innards example_config display_rgb24 example_palette no_clip (\<lambda>a. 0) (Some 0)
        0 0 8 100000 3 0 0 None False (Gc 0) initial_globals) = Some (Inr [])
   \<and> innards example_config display_565 example_palette no_clip (\<lambda>a. 0) (Some 0)
        0 0 1200000 1 3 0 0 None False (Gc 0) initial_globals = None
   \<and> innards example_config display_565 example_palette no_clip (\<lambda>a. 0) (Some 0)
        0 0 100000 90000 3 0 0 None False (Gc 0) initial_globals = Some (Inl Int_overflow)"
proof -
  obtain g' where "innards example_config display_rgb24 example_palette no_clip (\<lambda>a. 0) (Some 0)
                0 0 8 100000 3 0 0 None False (Gc 0) initial_globals = Some (Inr g')"
      "puts g' = []"
    using fast_path_no_put[of 100000 "\<lambda>a. 0"] by auto
  then show ?thesis
    using zero_capacity_never_returns[of "\<lambda>a. 0"] size_overflow_fails[of "\<lambda>a. 0"] by simp
qed



lemma descriptor_invariant_preserved:
  assumes inv: "bytes_per_pixel g \<noteq> 0 \<longrightarrow>
                  xi_depth g = visual_depth dp \<and> xi_bits_per_pixel g = bytes_per_pixel g * 8"
      and ret: "innards cf dp pal fl_clip_box m buf X Y W H delta linedelta mono_flag cb False gc0 g
                  = Some (Inr g')"
  shows "bytes_per_pixel g' \<noteq> 0 \<longrightarrow>
           xi_depth g' = visual_depth dp \<and> xi_bits_per_pixel g' = bytes_per_pixel g' * 8"
proof -
  obtain cx cy w h where clip: "fl_clip_box X Y W H = (cx, cy, w, h)"
    by (cases "fl_clip_box X Y W H")
  show ?thesis
  proof (cases "w \<le> 0 \<or> h \<le> 0")
    case True
    have "g' = g"
      using ret innards_empty[where fl_clip_box = fl_clip_box and X = X and Y = Y and W = W and H = H, OF clip True] by simp
    then show ?thesis
      using inv by simp
  next
    case False
    then have pos: "0 < w" "0 < h"
      by simp_all
    obtain g1 where ev: "ensure_visual cf dp g = Inr g1"
    proof (cases "ensure_visual cf dp g")
      case (Inl e)
      have "innards cf dp pal fl_clip_box m buf X Y W H delta linedelta mono_flag cb False gc0 g
              = Some (Inl e)"
        unfolding innards_def Let_def clip prod.case using False Inl by simp
      then show ?thesis
        using ret by simp
    next
      case (Inr g1)
      then show ?thesis
        using that by blast
    qed
    note f = ensure_visual_fields[OF ev]
    have d1: "descriptor g1 = (bytes_per_pixel g1, visual_depth dp, bytes_per_pixel g1 * 8)"
    proof (cases "bytes_per_pixel g = 0")
      case True
      then show ?thesis
        using f(5) by (simp add: descriptor_def)
    next
      case False
      then show ?thesis
        using f(4) inv by (simp add: descriptor_def)
    qed
    define g3 where "g3 = (if False then alpha_override dp (g1\<lparr>xi_width := w, xi_height := h\<rparr>)
                     else g1\<lparr>xi_width := w, xi_height := h\<rparr>)"
    have d3: "descriptor g3 = descriptor g1"
      by (simp add: g3_def descriptor_def)
    have d4: "descriptor (g3\<lparr>xi_data := x, xi_bytes_per_line := y\<rparr>) = descriptor g3" for x y
      by (simp add: descriptor_def)
    have "descriptor g' = descriptor g3"
      using ret general_path_descriptor d4
      unfolding innards_unfold[where fl_clip_box = fl_clip_box and X = X and Y = Y and W = W and H = H,
          OF clip pos ev refl g3_def refl refl]
      by (auto split: option.splits sum.splits if_splits)
    then show ?thesis
      using d1 d3 by (simp add: descriptor_def)
  qed
qed

lemma upt_3_Suc: "[0..<3 * Suc w] = [0..<3 * w] @ [3 * w, 3 * w + 1, 3 * w + 2]"
proof -
  have "3 * Suc w = Suc (Suc (Suc (3 * w)))"
    by simp
  then show ?thesis
    by (simp only: upt_Suc) simp
qed

lemma rgb_converter_identity:
  "rgb_converter m from w 3 = Row8 (map (\<lambda>k. m (from + int k)) [0..<3 * w])"
proof -
  have "concat (map (\<lambda>p. [m p, m (p + 1), m (p + 2)]) (pixel_addresses from w 3))
          = map (\<lambda>k. m (from + int k)) [0..<3 * w]"
  proof (induction w)
    case 0
    then show ?case by (simp add: pixel_addresses_def)
  next
    case (Suc w)
    show ?case
      unfolding pixel_addresses_snoc upt_3_Suc
      using Suc.IH by (simp add: algebra_simps)
  qed
  then show ?thesis
    by (simp add: rgb_converter_def pixel_loop_pure)
qed

lemma unaligned_rgb_is_converted:
  "map_option (map_sum id puts)
     (innards example_config display_rgb24 example_palette no_clip m (Some 0)
        0 0 3 1 3 0 0 None False (Gc 0) initial_globals)
   = Some (Inr [\<lparr>put_gc = Gc 0, put_rows = [Row8 (map (\<lambda>k. m (int k)) [0..<9])],
                 put_dest_x = 0, put_dest_y = 0, put_width = 3, put_height = 1\<rparr>])"
proof -
  have clip: "no_clip 0 0 3 1 = (0, 0, 3, 1)" "(0::int) < 3" "(0::int) < 1"
    by (simp_all add: no_clip_def)
  have ld: "(9::int) = (if (0::int) = 0 then 3 * \<bar>3\<bar> else 0)"
    by simp
  have conv: "Some Rgb = chosen_converter globals_rgb24 0 False"
    by (simp add: chosen_converter_def globals_rgb24_def)
  have a: "(9::int) AND 7 = 1" "((16::int) AND - 8) div 8 = 2"
    by simp_all
  have row: "rgb_converter m 0 3 3 = Row8 (map (\<lambda>k. m (int k)) [0..<9])"
    using rgb_converter_identity[of m 0 3] by simp
  have gp: "map_option (map_sum id puts)
      (general_path example_config display_rgb24 example_palette m (Some 0) 0 0 3 3 9
         None (Some Rgb) (Gc 0) 0 0 3 1 (globals_rgb24\<lparr>xi_width := 3, xi_height := 1\<rparr>))
      = Some (Inr [\<lparr>put_gc = Gc 0, put_rows = [Row8 (map (\<lambda>k. m (int k)) [0..<9])],
                 put_dest_x = 0, put_dest_y = 0, put_width = 3, put_height = 1\<rparr>])"
    unfolding general_path_def Let_def
    apply (simp add: globals_rgb24_def initial_globals_def sizeof_STORETYPE_def example_config_def a MAXBUFFER_def
        INT_MAX_def fits_int_def)
    apply (subst put_chunks.simps)
    apply (subst convert_rows.simps)
    apply (simp add: convert_row_def run_conv_def row)
    apply (subst convert_rows.simps)
    apply simp
    apply (subst put_chunks.simps)
    apply (simp add: XPutImage_def)
    done
  show ?thesis
    unfolding innards_unfold[where fl_clip_box = no_clip and X = 0 and Y = 0 and W = 3 and H = 1,
        OF clip ensure_visual_rgb24_initial[folded globals_rgb24_def] ld refl conv refl]
    using gp by (auto simp: a globals_rgb24_def split: option.splits sum.splits)
qed

text \<open>
  Claim C8.  With stride 3 the RGB passthrough converter copies its input: the output
  bytes are the input bytes.  The engine's shortcut for such sources, however, only
  points the image template at the caller's pixels and sends no request, whereas the
  conversion path sends the converted (identical) bytes: on a 24-bit RGB display an
  aligned 8 x 1 image draws nothing, an unaligned 3 x 1 image is drawn.
\<close>

theorem rgb_shortcut_sends_nothing:
  "map_option (map_sum id (\<lambda>g. (puts g, xi_data g, xi_bytes_per_line g)))
     (innards example_config display_rgb24 example_palette no_clip m (Some 0)
        0 0 8 1 3 0 0 None False (Gc 0) initial_globals) = Some (Inr ([], Source_at 0, 24))
   \<and> map_option (map_sum id puts)
     (innards example_config display_rgb24 example_palette no_clip m (Some 0)
        0 0 3 1 3 0 0 None False (Gc 0) initial_globals)
     = Some (Inr [\<lparr>put_gc = Gc 0, put_rows = [Row8 (map (\<lambda>k. m (int k)) [0..<9])],
                 put_dest_x = 0, put_dest_y = 0, put_width = 3, put_height = 1\<rparr>])
   \<and> rgb_converter m from w 3 = Row8 (map (\<lambda>k. m (from + int k)) [0..<3 * w])"
proof -
  obtain g' where "innards example_config display_rgb24 example_palette no_clip m (Some 0)
                0 0 8 1 3 0 0 None False (Gc 0) initial_globals = Some (Inr g')"
      "puts g' = []" "xi_data g' = Source_at 0" "xi_bytes_per_line g' = 24"
    using fast_path_no_put[of 1 m] by auto
  then show ?thesis
    using unaligned_rgb_is_converted[of m] rgb_converter_identity[of m "from" w] by simp
qed

lemma xor_flag_set:
  fixes d :: int
  assumes "bit d n"
  shows "d XOR 2 ^ n = d - 2 ^ n"
proof -
  have "d XOR 2 ^ n = flip_bit n d"
    by (simp add: flip_bit_eq_xor push_bit_eq_mult)
  also have "\<dots> = unset_bit n d"
    using assms by (simp add: flip_bit_eq_if)
  also have "\<dots> = d - 2 ^ n"
    using assms by (simp add: unset_bit_eq)
  finally show ?thesis .
qed

lemma xor_flag_clear:
  fixes d :: int
  assumes "\<not> bit d n"
  shows "d XOR 2 ^ n = d + 2 ^ n"
proof -
  have "d XOR 2 ^ n = flip_bit n d"
    by (simp add: flip_bit_eq_xor push_bit_eq_mult)
  also have "\<dots> = set_bit n d"
    using assms by (simp add: flip_bit_eq_if)
  also have "\<dots> = d + 2 ^ n"
    using assms by (simp add: set_bit_eq)
  finally show ?thesis .
qed

lemma bit_between:
  fixes k :: int
  assumes "2 ^ n \<le> k" and "k < 2 * 2 ^ n"
  shows "bit k n"
proof -
  have "(1 * 2 ^ n + (k - 2 ^ n)) div 2 ^ n = (1::int)"
    using assms by (intro split_div) simp_all
  then have "k div 2 ^ n = 1"
    by simp
  then show ?thesis
    by (simp add: bit_iff_odd)
qed

lemma strip_flag_magnitude:
  fixes d :: int
  assumes "2 ^ n < \<bar>d\<bar>" and "\<bar>d\<bar> < 2 * 2 ^ n"
  shows "\<bar>d XOR 2 ^ n\<bar> = \<bar>d\<bar> - 2 ^ n"
proof (cases "0 \<le> d")
  case True
  then have "bit d n"
    using assms by (intro bit_between) simp_all
  then show ?thesis
    using xor_flag_set[of d n] True assms by simp
next
  case False
  have "bit (- d - 1) n"
    using assms False by (intro bit_between) simp_all
  then have "\<not> bit d n"
    using bit_minus_int_iff[of "- d" n] by (simp add: bit_not_int_iff)
  then show ?thesis
    using xor_flag_clear[of d n] False assms by simp
qed

text \<open>
  Claim C10 (as amended).  Both \<^verbatim>\<open>draw_image\<close> entry points decode the alpha flag as
  the \<open>FL_IMAGE_WITH_ALPHA\<close> bits of the absolute value of the channel count, remove
  the flag with an exclusive or (which leaves the magnitude of the channel count
  without the flag), and set the mono flag exactly when the remaining value is
  strictly between -3 and 3.  The engine is called with these values.  The mono
  converter is then used exactly when that holds and the alpha flag is not set: with
  the alpha flag set the premultiplied-alpha converter is used whatever the mono flag.
\<close>

theorem draw_image_flag_decoding:
  "decode_depth F d = (alpha, d', mf) \<longrightarrow>
     alpha = ((\<bar>d\<bar> AND F) \<noteq> 0)
     \<and> d' = (if alpha then d XOR F else d)
     \<and> (mf \<noteq> 0 \<longleftrightarrow> - 3 < d' \<and> d' < 3)
     \<and> (alpha \<and> F = 2 ^ n \<and> F < \<bar>d\<bar> \<and> \<bar>d\<bar> < 2 * F \<longrightarrow> \<bar>d'\<bar> = \<bar>d\<bar> - F)
     \<and> draw_image cf dp pal fl_clip_box m F buf x y w h d l gc0 g
           = innards cf dp pal fl_clip_box m buf x y w h d' l mf None alpha gc0 g
     \<and> draw_image_callback cf dp pal fl_clip_box m F cb x y w h d gc0 g
           = innards cf dp pal fl_clip_box m None x y w h d' 0 mf cb alpha gc0 g
     \<and> chosen_converter g mf alpha =
           (if alpha then Some Argb_premul
            else if - 3 < d' \<and> d' < 3 then mono_converter g else converter g)"
proof
  assume a: "decode_depth F d = (alpha, d', mf)"
  have 1: "alpha = ((\<bar>d\<bar> AND F) \<noteq> 0)" and 2: "d' = (if alpha then d XOR F else d)"
    and 3: "mf \<noteq> 0 \<longleftrightarrow> - 3 < d' \<and> d' < 3"
    using a unfolding decode_depth_def Let_def by (auto split: if_splits)
  have 4: "alpha \<and> F = 2 ^ n \<and> F < \<bar>d\<bar> \<and> \<bar>d\<bar> < 2 * F \<longrightarrow> \<bar>d'\<bar> = \<bar>d\<bar> - F"
    using 2 strip_flag_magnitude[of n d] by auto
  have 5: "draw_image cf dp pal fl_clip_box m F buf x y w h d l gc0 g
           = innards cf dp pal fl_clip_box m buf x y w h d' l mf None alpha gc0 g"
    unfolding draw_image_def a by simp
  have 6: "draw_image_callback cf dp pal fl_clip_box m F cb x y w h d gc0 g
           = innards cf dp pal fl_clip_box m None x y w h d' 0 mf cb alpha gc0 g"
    unfolding draw_image_callback_def a by simp
  have 7: "chosen_converter g mf alpha =
           (if alpha then Some Argb_premul
            else if - 3 < d' \<and> d' < 3 then mono_converter g else converter g)"
    using 3 by (simp add: chosen_converter_def)
  show "alpha = ((\<bar>d\<bar> AND F) \<noteq> 0)
     \<and> d' = (if alpha then d XOR F else d)
     \<and> (mf \<noteq> 0 \<longleftrightarrow> - 3 < d' \<and> d' < 3)
     \<and> (alpha \<and> F = 2 ^ n \<and> F < \<bar>d\<bar> \<and> \<bar>d\<bar> < 2 * F \<longrightarrow> \<bar>d'\<bar> = \<bar>d\<bar> - F)
     \<and> draw_image cf dp pal fl_clip_box m F buf x y w h d l gc0 g
           = innards cf dp pal fl_clip_box m buf x y w h d' l mf None alpha gc0 g
     \<and> draw_image_callback cf dp pal fl_clip_box m F cb x y w h d gc0 g
           = innards cf dp pal fl_clip_box m None x y w h d' 0 mf cb alpha gc0 g
     \<and> chosen_converter g mf alpha =
           (if alpha then Some Argb_premul
            else if - 3 < d' \<and> d' < 3 then mono_converter g else converter g)"
    using 1 2 3 4 5 6 7 by blast
qed

theorem draw_image_flag_decoding_witness:
  "decode_depth (2 ^ 30) (- 1073741826) = (True, - 2, 1)
   \<and> chosen_converter globals_565 1 True = Some Argb_premul
   \<and> decode_depth (2 ^ 30) 2 = (False, 2, 1)
   \<and> chosen_converter globals_565 1 False = Some M565
   \<and> decode_depth (2 ^ 30) 3 = (False, 3, 0)
   \<and> chosen_converter globals_565 0 False = Some C565"
proof -
  have a: "\<bar>- 1073741826 XOR (2 ^ 30 :: int)\<bar> = \<bar>- 1073741826\<bar> - 2 ^ 30"
    by (rule strip_flag_magnitude) simp_all
  have b: "((1073741826::int) AND 1073741824) = 1073741824" "((2::int) AND 1073741824) = 0"
     "((3::int) AND 1073741824) = 0" "(- 1073741826 XOR (1073741824::int)) = - 2"
    by simp_all
  have d1: "decode_depth (2 ^ 30) (- 1073741826) = (True, - 2, 1)"
    by (simp add: decode_depth_def Let_def b)
  have d2: "decode_depth (2 ^ 30) 2 = (False, 2, 1)"
    by (simp add: decode_depth_def Let_def b)
  have d3: "decode_depth (2 ^ 30) 3 = (False, 3, 0)"
    by (simp add: decode_depth_def Let_def b)
  have m: "mono_converter globals_565 = Some M565" "converter globals_565 = Some C565"
    by (simp_all add: globals_565_def)
  show ?thesis
    using d1 d2 d3 m
      draw_image_flag_decoding[of "2 ^ 30" "- 1073741826" True "- 2" 1 30 _ _ _ _ _ _ _ _ _ _ _ _ globals_565]
      draw_image_flag_decoding[of "2 ^ 30" 2 False 2 1 30 _ _ _ _ _ _ _ _ _ _ _ _ globals_565]
      draw_image_flag_decoding[of "2 ^ 30" 3 False 3 0 30 _ _ _ _ _ _ _ _ _ _ _ _ globals_565]
    by simp
qed

theorem alpha_overrides_mono:
  "decode_depth 0x40000000 0x40000002 = (True, 2, 1)
   \<and> mono_converter globals_565 = Some M565
   \<and> chosen_converter globals_565 1 True = Some Argb_premul"
proof -
  have b: "((1073741826::int) AND 1073741824) = 1073741824"
    "((1073741826::int) XOR 1073741824) = 2"
    by simp_all
  show ?thesis
    by (simp add: decode_depth_def Let_def b chosen_converter_def globals_565_def)
qed

section \<open>Compositing an image with alpha by hand\<close>

text \<open>
  The stored byte is the shifted sum itself: the sum is at most \<open>255 * 255\<close>, so nothing
  is lost when it is narrowed to \<^verbatim>\<open>uchar\<close>.
\<close>

lemma blend_uint:
  "uint (blend s a d (255 - a)) = (uint s * uint a + uint d * (255 - uint a)) div 256"
proof -
  have a0: "0 \<le> uint a" and a1: "uint a < 256" using uint_lt2p[of a] by simp_all
  have s0: "0 \<le> uint s" and s1: "uint s < 256" using uint_lt2p[of s] by simp_all
  have d0: "0 \<le> uint d" and d1: "uint d < 256" using uint_lt2p[of d] by simp_all
  have le: "uint a \<le> 255" using a1 by simp
  have da: "uint (255 - a) = 255 - uint a"
    using le by (simp add: uint_sub_if' word_le_def)
  let ?v = "uint s * uint a + uint d * (255 - uint a)"
  have v0: "0 \<le> ?v" using a0 s0 d0 le by simp
  have "uint s * uint a \<le> 255 * uint a" using s1 a0 by (intro mult_right_mono) simp_all
  moreover have "uint d * (255 - uint a) \<le> 255 * (255 - uint a)" using d1 le by (intro mult_right_mono) simp_all
  ultimately have v1: "?v \<le> 65025" by simp
  have q0: "0 \<le> ?v div 256" using v0 by simp
  have q1: "?v div 256 < 256" using v1 by simp
  show ?thesis
    unfolding blend_def da drop_bit_eq_div
    using q0 q1 by (simp add: uint_word_of_int take_bit_int_eq_self unsigned_of_int)
qed

lemma blend_pixels_props:
  assumes rd: "\<And>s. rd s = (R s, G s, B s, A s, n)"
  shows "p + 3 * x \<le> length dst \<Longrightarrow>
     \<exists>dst'. blend_pixels rd x s p dst = (s + n * int x, p + 3 * x, dst') \<and>
       length dst' = length dst \<and>
       (\<forall>k. k < p \<or> p + 3 * x \<le> k \<longrightarrow> dst' ! k = dst ! k) \<and>
       (\<forall>i c. i < x \<and> c < 3 \<longrightarrow>
          dst' ! (p + 3 * i + c) =
            blend ([R (s + n * int i), G (s + n * int i), B (s + n * int i)] ! c)
              (A (s + n * int i)) (dst ! (p + 3 * i + c)) (255 - A (s + n * int i)))"
proof (induction x arbitrary: s p dst)
  case 0
  then show ?case by simp
next
  case (Suc x)
  define a where "a = A s"
  define d1 where "d1 = dst[p := blend (R s) a (dst ! p) (255 - a)]"
  define d2 where "d2 = d1[p + 1 := blend (G s) a (dst ! (p + 1)) (255 - a)]"
  define d3 where "d3 = d2[p + 2 := blend (B s) a (dst ! (p + 2)) (255 - a)]"
  have len3: "length d3 = length dst" by (simp add: d3_def d2_def d1_def)
  have step: "blend_pixels rd (Suc x) s p dst = blend_pixels rd x (s + n) (p + 3) d3"
    by (simp add: rd Let_def d3_def d2_def d1_def a_def)
  have bound: "(p + 3) + 3 * x \<le> length d3" using Suc.prems len3 by simp
  from Suc.IH[OF bound, of "s + n"] obtain dst' where
    r: "blend_pixels rd x (s + n) (p + 3) d3 = (s + n + n * int x, p + 3 + 3 * x, dst')"
    and l: "length dst' = length d3"
    and out: "\<And>k. k < p + 3 \<or> p + 3 + 3 * x \<le> k \<Longrightarrow> dst' ! k = d3 ! k"
    and ins: "\<And>i c. i < x \<Longrightarrow> c < 3 \<Longrightarrow> dst' ! (p + 3 + 3 * i + c) =
            blend ([R (s + n + n * int i), G (s + n + n * int i), B (s + n + n * int i)] ! c)
              (A (s + n + n * int i)) (d3 ! (p + 3 + 3 * i + c)) (255 - A (s + n + n * int i))"
    by blast
  have d3_far: "\<And>k. k < p \<or> p + 3 \<le> k \<Longrightarrow> d3 ! k = dst ! k"
    by (auto simp add: d3_def d2_def d1_def)
  have p2: "p + 2 < length dst" using Suc.prems by simp
  have d3_0: "d3 ! p = blend (R s) a (dst ! p) (255 - a)"
    using p2 by (simp add: d3_def d2_def d1_def)
  have d3_1: "d3 ! (p + 1) = blend (G s) a (dst ! (p + 1)) (255 - a)"
    using p2 by (simp add: d3_def d2_def d1_def)
  have d3_2: "d3 ! (p + 2) = blend (B s) a (dst ! (p + 2)) (255 - a)"
    using p2 by (simp add: d3_def d2_def d1_def)
  have res: "blend_pixels rd (Suc x) s p dst = (s + n * int (Suc x), p + 3 * Suc x, dst')"
    using step r by (simp add: algebra_simps)
  have L: "length dst' = length dst" using l len3 by simp
  have O: "\<forall>k. k < p \<or> p + 3 * Suc x \<le> k \<longrightarrow> dst' ! k = dst ! k"
  proof (intro allI impI)
    fix k assume k: "k < p \<or> p + 3 * Suc x \<le> k"
    then have "dst' ! k = d3 ! k" by (intro out) auto
    also have "\<dots> = dst ! k" using k by (intro d3_far) auto
    finally show "dst' ! k = dst ! k" .
  qed
  have I: "\<forall>i c. i < Suc x \<and> c < 3 \<longrightarrow>
          dst' ! (p + 3 * i + c) =
            blend ([R (s + n * int i), G (s + n * int i), B (s + n * int i)] ! c)
              (A (s + n * int i)) (dst ! (p + 3 * i + c)) (255 - A (s + n * int i))"
  proof (intro allI impI)
    fix i c :: nat assume ic: "i < Suc x \<and> c < 3"
    show "dst' ! (p + 3 * i + c) =
            blend ([R (s + n * int i), G (s + n * int i), B (s + n * int i)] ! c)
              (A (s + n * int i)) (dst ! (p + 3 * i + c)) (255 - A (s + n * int i))"
    proof (cases i)
      case 0
      have e: "dst' ! (p + c) = d3 ! (p + c)" using ic by (intro out) simp
      from ic have "c = 0 \<or> c = 1 \<or> c = 2" by auto
      then show ?thesis
        using e d3_0 d3_1 d3_2 0 by (auto simp add: a_def)
    next
      case (Suc i')
      have i': "i' < x" using ic Suc by simp
      have c: "c < 3" using ic by simp
      have adr: "s + n + n * int i' = s + n * int i" using Suc by (simp add: algebra_simps)
      have idx: "p + 3 + 3 * i' + c = p + 3 * i + c" using Suc by simp
      have "d3 ! (p + 3 + 3 * i' + c) = dst ! (p + 3 + 3 * i' + c)" by (intro d3_far) simp
      with ins[OF i' c] show ?thesis unfolding adr idx by simp
    qed
  qed
  show ?case using res L O I by blast
qed

lemma blend_rows_props:
  assumes rd: "\<And>s. rd s = (R s, G s, B s, A s, n)"
  shows "p + 3 * W * y \<le> length dst \<Longrightarrow>
     length (blend_rows rd W skip y s p dst) = length dst \<and>
     (\<forall>k. k < p \<or> p + 3 * W * y \<le> k \<longrightarrow> blend_rows rd W skip y s p dst ! k = dst ! k) \<and>
     (\<forall>j i c. j < y \<and> i < W \<and> c < 3 \<longrightarrow>
        blend_rows rd W skip y s p dst ! (p + 3 * (j * W + i) + c) =
          blend ([R (s + (n * int W + skip) * int j + n * int i),
                  G (s + (n * int W + skip) * int j + n * int i),
                  B (s + (n * int W + skip) * int j + n * int i)] ! c)
            (A (s + (n * int W + skip) * int j + n * int i))
            (dst ! (p + 3 * (j * W + i) + c))
            (255 - A (s + (n * int W + skip) * int j + n * int i)))"
proof (induction y arbitrary: s p dst)
  case 0
  then show ?case by simp
next
  case (Suc y)
  have b1: "p + 3 * W \<le> length dst" using Suc.prems by (simp add: algebra_simps)
  from blend_pixels_props[of rd R G B A n p W dst s, OF rd b1] obtain dst' where
    r: "blend_pixels rd W s p dst = (s + n * int W, p + 3 * W, dst')"
    and l: "length dst' = length dst"
    and out: "\<And>k. k < p \<or> p + 3 * W \<le> k \<Longrightarrow> dst' ! k = dst ! k"
    and ins: "\<And>i c. i < W \<Longrightarrow> c < 3 \<Longrightarrow> dst' ! (p + 3 * i + c) =
            blend ([R (s + n * int i), G (s + n * int i), B (s + n * int i)] ! c)
              (A (s + n * int i)) (dst ! (p + 3 * i + c)) (255 - A (s + n * int i))"
    by blast
  let ?s' = "s + n * int W + skip"
  let ?p' = "p + 3 * W"
  let ?out = "blend_rows rd W skip y ?s' ?p' dst'"
  have step: "blend_rows rd W skip (Suc y) s p dst = ?out"
    by (simp add: r)
  have b2: "?p' + 3 * W * y \<le> length dst'" using Suc.prems l by (simp add: algebra_simps)
  note IH = Suc.IH[OF b2, of ?s']
  have L: "length ?out = length dst'" using IH by blast
  have O: "\<And>k. k < ?p' \<or> ?p' + 3 * W * y \<le> k \<Longrightarrow> ?out ! k = dst' ! k" using IH by blast
  have I: "\<And>j i c. j < y \<Longrightarrow> i < W \<Longrightarrow> c < 3 \<Longrightarrow>
        ?out ! (?p' + 3 * (j * W + i) + c) =
          blend ([R (?s' + (n * int W + skip) * int j + n * int i),
                  G (?s' + (n * int W + skip) * int j + n * int i),
                  B (?s' + (n * int W + skip) * int j + n * int i)] ! c)
            (A (?s' + (n * int W + skip) * int j + n * int i))
            (dst' ! (?p' + 3 * (j * W + i) + c))
            (255 - A (?s' + (n * int W + skip) * int j + n * int i))" using IH by blast
  have L': "length (blend_rows rd W skip (Suc y) s p dst) = length dst"
    unfolding step using L l by simp
  have O': "\<forall>k. k < p \<or> p + 3 * W * Suc y \<le> k \<longrightarrow>
              blend_rows rd W skip (Suc y) s p dst ! k = dst ! k"
  proof (intro allI impI)
    fix k assume k: "k < p \<or> p + 3 * W * Suc y \<le> k"
    have "?out ! k = dst' ! k" using k by (intro O) (auto simp add: algebra_simps)
    also have "\<dots> = dst ! k" using k by (intro out) (auto simp add: algebra_simps)
    finally show "blend_rows rd W skip (Suc y) s p dst ! k = dst ! k" unfolding step .
  qed
  have I': "\<forall>j i c. j < Suc y \<and> i < W \<and> c < 3 \<longrightarrow>
        blend_rows rd W skip (Suc y) s p dst ! (p + 3 * (j * W + i) + c) =
          blend ([R (s + (n * int W + skip) * int j + n * int i),
                  G (s + (n * int W + skip) * int j + n * int i),
                  B (s + (n * int W + skip) * int j + n * int i)] ! c)
            (A (s + (n * int W + skip) * int j + n * int i))
            (dst ! (p + 3 * (j * W + i) + c))
            (255 - A (s + (n * int W + skip) * int j + n * int i))"
  proof (intro allI impI)
    fix j i c :: nat assume a: "j < Suc y \<and> i < W \<and> c < 3"
    then have i: "i < W" and c: "c < 3" by simp_all
    show "blend_rows rd W skip (Suc y) s p dst ! (p + 3 * (j * W + i) + c) =
          blend ([R (s + (n * int W + skip) * int j + n * int i),
                  G (s + (n * int W + skip) * int j + n * int i),
                  B (s + (n * int W + skip) * int j + n * int i)] ! c)
            (A (s + (n * int W + skip) * int j + n * int i))
            (dst ! (p + 3 * (j * W + i) + c))
            (255 - A (s + (n * int W + skip) * int j + n * int i))"
    proof (cases j)
      case 0
      have lt: "p + 3 * i + c < ?p'" using i c by simp
      have "?out ! (p + 3 * i + c) = dst' ! (p + 3 * i + c)" using lt by (intro O) simp
      with ins[OF i c] show ?thesis unfolding step using 0 by simp
    next
      case (Suc j')
      have j': "j' < y" using a Suc by simp
      have adr: "?s' + (n * int W + skip) * int j' + n * int i =
                 s + (n * int W + skip) * int j + n * int i"
        using Suc by (simp add: algebra_simps)
      have idx: "?p' + 3 * (j' * W + i) + c = p + 3 * (j * W + i) + c"
        using Suc by (simp add: algebra_simps)
      have "dst' ! (?p' + 3 * (j' * W + i) + c) = dst ! (?p' + 3 * (j' * W + i) + c)"
        by (intro out) simp
      with I[OF j' i c] show ?thesis unfolding step adr idx by simp
    qed
  qed
  show ?case using L' O' I' by blast
qed

lemma read_ga_shape:
  "read_ga m s = ((\<lambda>s. m s) s, (\<lambda>s. m s) s, (\<lambda>s. m s) s, (\<lambda>s. m (s + 1)) s, 2)"
  by (simp add: read_ga_def)

lemma read_rgba_shape:
  "read_rgba m s = ((\<lambda>s. m s) s, (\<lambda>s. m (s + 1)) s, (\<lambda>s. m (s + 2)) s, (\<lambda>s. m (s + 3)) s, 4)"
  by (simp add: read_rgba_def)

lemma alpha_blend_pixel:
  assumes d: "img_d img = 2 \<or> img_d img = 4"
    and j: "int j < H" and i: "int i < W" and c: "c < 3"
  shows "\<exists>out. alpha_blend m fl_read_image img X Y W H cx cy = Inr out \<and>
           length out = nat (W * H * 3) \<and>
           out ! (3 * (j * nat W + i) + c) =
             blend (m (pixel_address img (cy + int j) (cx + int i) + (if img_d img = 2 then 0 else int c)))
                   (m (pixel_address img (cy + int j) (cx + int i) + (img_d img - 1)))
                   (fl_read_image X Y W H (3 * (j * nat W + i) + c))
                   (255 - m (pixel_address img (cy + int j) (cx + int i) + (img_d img - 1)))"
proof -
  have W0: "0 < W" and H0: "0 < H" using i j by simp_all
  have jn: "j < nat H" and inn: "i < nat W" using i j by simp_all
  have nn: "\<not> W * H * 3 < 0" using W0 H0 by (simp add: not_less)
  let ?dst = "map (fl_read_image X Y W H) [0..<nat (W * H * 3)]"
  let ?k = "3 * (j * nat W + i) + c"
  have len: "length ?dst = nat (W * H * 3)" by simp
  have eqn: "nat (W * H * 3) = 3 * nat W * nat H"
    using W0 H0 by (simp add: nat_mult_distrib algebra_simps)
  have bound: "0 + 3 * nat W * nat H \<le> length ?dst" using eqn by simp
  have "j * nat W + i < nat H * nat W"
  proof -
    have "j * nat W + i < j * nat W + nat W" using inn by simp
    also have "\<dots> = (j + 1) * nat W" by simp
    also have "\<dots> \<le> nat H * nat W" using jn by (intro mult_right_mono) simp_all
    finally show ?thesis .
  qed
  then have klt: "?k < nat (W * H * 3)" using c eqn by (simp add: algebra_simps)
  have dk: "?dst ! ?k = fl_read_image X Y W H ?k" using klt by simp
  let ?ld = "line_size img"
  let ?s = "img_array img + cy * ?ld + cx * img_d img"
  show ?thesis
  proof (cases "img_d img = 2")
    case True
    have res: "alpha_blend m fl_read_image img X Y W H cx cy =
        Inr (blend_rows (read_ga m) (nat W) (?ld - 2 * W) (nat H) ?s 0 ?dst)"
      using nn True by (simp add: alpha_blend_def line_size_def Let_def)
    note P = blend_rows_props[of "read_ga m" "\<lambda>s. m s" "\<lambda>s. m s" "\<lambda>s. m s" "\<lambda>s. m (s + 1)" 2
        0 "nat W" "nat H" ?dst "?ld - 2 * W" ?s, OF read_ga_shape bound]
    have L: "length (blend_rows (read_ga m) (nat W) (?ld - 2 * W) (nat H) ?s 0 ?dst) = nat (W * H * 3)"
      using P len by simp
    have adr: "?s + (2 * int (nat W) + (?ld - 2 * W)) * int j + 2 * int i =
               pixel_address img (cy + int j) (cx + int i)"
      using W0 True by (simp add: pixel_address_def algebra_simps)
    from P have raw: "blend_rows (read_ga m) (nat W) (?ld - 2 * W) (nat H) ?s 0 ?dst ! (0 + 3 * (j * nat W + i) + c) =
          blend ([m (?s + (2 * int (nat W) + (?ld - 2 * W)) * int j + 2 * int i),
                  m (?s + (2 * int (nat W) + (?ld - 2 * W)) * int j + 2 * int i),
                  m (?s + (2 * int (nat W) + (?ld - 2 * W)) * int j + 2 * int i)] ! c)
            (m (?s + (2 * int (nat W) + (?ld - 2 * W)) * int j + 2 * int i + 1))
            (?dst ! (0 + 3 * (j * nat W + i) + c))
            (255 - m (?s + (2 * int (nat W) + (?ld - 2 * W)) * int j + 2 * int i + 1))"
      using jn inn c by blast
    have sel: "[m x, m x, m x] ! c = m x" for x
      using c by (cases c) (auto simp add: nth_Cons split: nat.splits)
    have z: "0 + 3 * (j * nat W + i) + c = ?k" by simp
    have V: "blend_rows (read_ga m) (nat W) (?ld - 2 * W) (nat H) ?s 0 ?dst ! ?k =
          blend (m (pixel_address img (cy + int j) (cx + int i)))
            (m (pixel_address img (cy + int j) (cx + int i) + 1))
            (fl_read_image X Y W H ?k)
            (255 - m (pixel_address img (cy + int j) (cx + int i) + 1))"
      using raw unfolding z adr dk sel by simp
    show ?thesis unfolding res using L V True by simp
  next
    case False
    then have d4: "img_d img = 4" using d by simp
    have res: "alpha_blend m fl_read_image img X Y W H cx cy =
        Inr (blend_rows (read_rgba m) (nat W) (?ld - 4 * W) (nat H) ?s 0 ?dst)"
      using nn d4 by (simp add: alpha_blend_def line_size_def Let_def)
    note P = blend_rows_props[of "read_rgba m" "\<lambda>s. m s" "\<lambda>s. m (s + 1)" "\<lambda>s. m (s + 2)" "\<lambda>s. m (s + 3)" 4
        0 "nat W" "nat H" ?dst "?ld - 4 * W" ?s, OF read_rgba_shape bound]
    have L: "length (blend_rows (read_rgba m) (nat W) (?ld - 4 * W) (nat H) ?s 0 ?dst) = nat (W * H * 3)"
      using P len by simp
    have adr: "?s + (4 * int (nat W) + (?ld - 4 * W)) * int j + 4 * int i =
               pixel_address img (cy + int j) (cx + int i)"
      using W0 d4 by (simp add: pixel_address_def algebra_simps)
    from P have raw: "blend_rows (read_rgba m) (nat W) (?ld - 4 * W) (nat H) ?s 0 ?dst ! (0 + 3 * (j * nat W + i) + c) =
          blend ([m (?s + (4 * int (nat W) + (?ld - 4 * W)) * int j + 4 * int i),
                  m (?s + (4 * int (nat W) + (?ld - 4 * W)) * int j + 4 * int i + 1),
                  m (?s + (4 * int (nat W) + (?ld - 4 * W)) * int j + 4 * int i + 2)] ! c)
            (m (?s + (4 * int (nat W) + (?ld - 4 * W)) * int j + 4 * int i + 3))
            (?dst ! (0 + 3 * (j * nat W + i) + c))
            (255 - m (?s + (4 * int (nat W) + (?ld - 4 * W)) * int j + 4 * int i + 3))"
      using jn inn c by blast
    have sel: "[m x, m (x + 1), m (x + 2)] ! c = m (x + int c)" for x
      using c by (cases c) (auto simp add: nth_Cons split: nat.splits)
    have z: "0 + 3 * (j * nat W + i) + c = ?k" by simp
    have V: "blend_rows (read_rgba m) (nat W) (?ld - 4 * W) (nat H) ?s 0 ?dst ! ?k =
          blend (m (pixel_address img (cy + int j) (cx + int i) + int c))
            (m (pixel_address img (cy + int j) (cx + int i) + 3))
            (fl_read_image X Y W H ?k)
            (255 - m (pixel_address img (cy + int j) (cx + int i) + 3))"
      using raw unfolding z adr dk sel by simp
    show ?thesis unfolding res using L V d4 by simp
  qed
qed

text \<open>
  Claim C3.  For an image of depth 2 or 4, \<^verbatim>\<open>alpha_blend\<close> hands on a buffer of
  \<open>W * H * 3\<close> bytes in which channel \<open>c\<close> of the pixel in row \<open>j\<close> and column \<open>i\<close> is
  \<open>(src * a + old * (255 - a)) >> 8\<close>, where \<open>a\<close> is the alpha byte of the source pixel,
  \<open>old\<close> is the byte read back from the destination, and \<open>src\<close> is channel \<open>c\<close> of
  the source pixel for depth 4 and its one intensity byte, whatever \<open>c\<close>, for depth 2.
  Hence every pixel of an RGBA source that is \<open>(200, 100, 50)\<close> with alpha \<open>128\<close>, over a
  destination read back as \<open>0\<close>, comes out as \<open>(100, 50, 25)\<close>; in particular every pixel
  of an 8 by 8 image of that colour.
\<close>

theorem alpha_blend_formula:
  assumes "img_d img = 2 \<or> img_d img = 4"
    and "int j < H" and "int i < W" and "c < 3"
  shows "\<exists>out. alpha_blend m fl_read_image img X Y W H cx cy = Inr out \<and>
           length out = nat (W * H * 3) \<and>
           (let k = 3 * (j * nat W + i) + c;
                p = pixel_address img (cy + int j) (cx + int i);
                src = m (if img_d img = 2 then p else p + int c);
                a = m (p + (img_d img - 1));
                old = fl_read_image X Y W H k
            in uint (out ! k) = drop_bit 8 (uint src * uint a + uint old * (255 - uint a)) \<and>
               (img_d img = 4 \<and> m p = 200 \<and> m (p + 1) = 100 \<and> m (p + 2) = 50 \<and> a = 128 \<and> old = 0
                  \<longrightarrow> out ! k = [100, 50, 25] ! c))"
proof -
  let ?k = "3 * (j * nat W + i) + c"
  let ?p = "pixel_address img (cy + int j) (cx + int i)"
  let ?src = "m (if img_d img = 2 then ?p else ?p + int c)"
  let ?a = "m (?p + (img_d img - 1))"
  let ?old = "fl_read_image X Y W H ?k"
  from alpha_blend_pixel[OF assms, of m fl_read_image X Y cx cy] obtain out where
    r: "alpha_blend m fl_read_image img X Y W H cx cy = Inr out"
    and l: "length out = nat (W * H * 3)"
    and v: "out ! ?k = blend (m (?p + (if img_d img = 2 then 0 else int c))) ?a ?old (255 - ?a)"
    by blast
  have s: "m (?p + (if img_d img = 2 then 0 else int c)) = ?src" by simp
  have v': "out ! ?k = blend ?src ?a ?old (255 - ?a)" using v unfolding s .
  have f: "uint (out ! ?k) = drop_bit 8 (uint ?src * uint ?a + uint ?old * (255 - uint ?a))"
    unfolding v' blend_uint drop_bit_eq_div by simp
  have g: "out ! ?k = [100, 50, 25] ! c"
    if h: "img_d img = 4 \<and> m ?p = 200 \<and> m (?p + 1) = 100 \<and> m (?p + 2) = 50 \<and> ?a = 128 \<and> ?old = 0"
  proof -
    from h have d4: "img_d img = 4" by simp
    from h have a0: "?a = 128" by blast
    from h have r0: "m ?p = 200" and g0: "m (?p + 1) = 100" and b0: "m (?p + 2) = 50"
      and o: "?old = 0" by simp_all
    have a': "?a = 128" by (rule a0)
    from \<open>c < 3\<close> have "c = 0 \<or> c = 1 \<or> c = 2" by auto
    then show ?thesis
    proof (elim disjE)
      assume "c = 0" then show ?thesis unfolding v' a' o using d4 r0 by (simp add: blend_def)
    next
      assume "c = 1" then show ?thesis unfolding v' a' o using d4 g0 by (simp add: blend_def)
    next
      assume "c = 2" then show ?thesis unfolding v' a' o using d4 b0 by (simp add: blend_def)
    qed
  qed
  show ?thesis
    unfolding Let_def using r l f g by blast
qed

text \<open>
  The 8 by 8 image of the scenario, stored from address 0 with the default line size,
  over a black destination: the last byte of the result, and the whole buffer.
\<close>

theorem alpha_blend_formula_witness:
  "(\<exists>out. alpha_blend (\<lambda>a. [200, 100, 50, 128] ! nat (a mod 4)) (\<lambda>X Y W H k. 0)
            \<lparr>img_array = 0, img_w = 8, img_d = 4, img_ld = 0\<rparr> 0 0 8 8 0 0 = Inr out \<and>
          length out = 192 \<and> uint (out ! 191) = 25 \<and> out ! 191 = 25) \<and>
   alpha_blend (\<lambda>a. [200, 100, 50, 128] ! nat (a mod 4)) (\<lambda>X Y W H k. 0)
            \<lparr>img_array = 0, img_w = 8, img_d = 4, img_ld = 0\<rparr> 0 0 8 8 0 0 =
     Inr (concat (replicate 64 [100, 50, 25]))"
proof
  show "\<exists>out. alpha_blend (\<lambda>a. [200, 100, 50, 128] ! nat (a mod 4)) (\<lambda>X Y W H k. 0)
            \<lparr>img_array = 0, img_w = 8, img_d = 4, img_ld = 0\<rparr> 0 0 8 8 0 0 = Inr out \<and>
          length out = 192 \<and> uint (out ! 191) = 25 \<and> out ! 191 = 25"
    using alpha_blend_formula[of "\<lparr>img_array = 0, img_w = 8, img_d = 4, img_ld = 0\<rparr>" 7 8 7 8 2
        "\<lambda>a. [200, 100, 50, 128] ! nat (a mod 4)" "\<lambda>X Y W H k. 0" 0 0 0 0]
    by (simp add: pixel_address_def line_size_def Let_def)
  show "alpha_blend (\<lambda>a. [200, 100, 50, 128] ! nat (a mod 4)) (\<lambda>X Y W H k. 0)
            \<lparr>img_array = 0, img_w = 8, img_d = 4, img_ld = 0\<rparr> 0 0 8 8 0 0 =
     Inr (concat (replicate 64 [100, 50, 25]))"
    by code_simp
qed

end
